theory Spec2Isabelle
  imports Main "HOL-Library.Word"
begin

unbundle bit_operations_syntax

section \<open>Data model (namespace hl of main.cpp)\<close>

definition ARENA_W :: int where
  "ARENA_W = 40"

definition ARENA_H :: int where
  "ARENA_H = 24"

datatype CellKind = Empty | Wall | Symbol

datatype Piece = Rock | Paper | Scissors

text \<open>\<open>struct PlayerId { uint8_t v; }\<close> is the byte it wraps.\<close>

type_synonym PlayerId = "8 word"

record Cell =
  kind :: CellKind
  owner :: PlayerId
  piece :: Piece

text \<open>A value-initialised cell, \<open>Cell{}\<close>.\<close>

definition Cell0 :: Cell where
  "Cell0 = \<lparr>kind = Empty, owner = 0, piece = Rock\<rparr>"

text \<open>
  \<open>struct Grid\<close> holds a \<open>std::array\<close> of \<open>ARENA_W * ARENA_H\<close> cells; the model is the list
  of its cells in index order. The array's fixed size is the predicate \<open>grid_ok\<close>.
\<close>

type_synonym Grid = "Cell list"

definition grid_ok :: "Grid \<Rightarrow> bool" where
  "grid_ok g \<longleftrightarrow> length g = nat (ARENA_W * ARENA_H)"

definition idx :: "int \<Rightarrow> int \<Rightarrow> int" where
  "idx x y = y * ARENA_W + x"

definition at :: "Grid \<Rightarrow> int \<Rightarrow> int \<Rightarrow> Cell" where
  "at g x y = g ! nat (idx x y)"

text \<open>Assignment through the reference \<open>Grid::at(x, y)\<close>.\<close>

definition set_at :: "Grid \<Rightarrow> int \<Rightarrow> int \<Rightarrow> Cell \<Rightarrow> Grid" where
  "set_at g x y c = g[nat (idx x y) := c]"

definition clear :: "Grid \<Rightarrow> Grid" where
  "clear g = replicate (nat (ARENA_W * ARENA_H)) Cell0"

record GameConfig =
  pairs_per_tick :: int
  ticks_per_second :: int

record PlayerState =
  id_v :: PlayerId
  current :: Piece
  last_rot_tick :: "16 word"
  tick_losses :: "8 word"
  rot_period :: "8 word"
  accel_ctr :: "8 word"

record AlbertConfig =
  rotation_average :: int
  rotation_half_interval :: int

datatype Phase = Ready | Playing | Lost | Won | GameWon

text \<open>
  \<open>struct GameState\<close>. The field \<open>sys_gen\<close> stands for the \<open>std::mt19937\<close> that \<open>rngu\<close> draws
  from when \<open>use_system_rng\<close> is set (a static of \<open>rngu\<close>; the struct's own \<open>system_rng\<close> is
  never read): the sequence of the values it will return, which the program does not
  determine.
\<close>

record GameState =
  grid :: Grid
  cfg :: GameConfig
  tick :: "16 word"
  rng16 :: "16 word"
  players :: "PlayerState list"
  current_level :: int
  phase :: Phase
  last_battles :: int
  use_system_rng :: bool
  sys_gen :: "nat \<Rightarrow> 16 word"
  last_attempts :: int
  last_same_player :: int
  last_wall_empty :: int
  albert_config :: AlbertConfig

section \<open>Utility\<close>

text \<open>
  The remainder operator \<open>%\<close> of C++ on \<open>int\<close>: the quotient is truncated towards zero, so
  the result has the sign of the dividend. (With a zero divisor the program's behaviour is
  undefined; the model then returns the dividend.)
\<close>

definition rem_trunc :: "int \<Rightarrow> int \<Rightarrow> int" where
  "rem_trunc a b = sgn a * (\<bar>a\<bar> mod \<bar>b\<bar>)"

text \<open>\<open>lfsr16_step\<close>: the new value of \<open>s\<close>, which is also the value returned.\<close>

definition lfsr16_step :: "16 word \<Rightarrow> 16 word" where
  "lfsr16_step s =
     (let bit = (drop_bit 0 s XOR drop_bit 2 s XOR drop_bit 3 s XOR drop_bit 5 s) AND 1
      in drop_bit 1 s OR push_bit 15 bit)"

definition rngu :: "GameState \<Rightarrow> 16 word \<times> GameState" where
  "rngu gs =
     (if use_system_rng gs
      then (sys_gen gs 0 AND 0xFFFF, gs\<lparr>sys_gen := (\<lambda>n. sys_gen gs (Suc n))\<rparr>)
      else (lfsr16_step (rng16 gs), gs\<lparr>rng16 := lfsr16_step (rng16 gs)\<rparr>))"

definition in_bounds :: "int \<Rightarrow> int \<Rightarrow> bool" where
  "in_bounds x y \<longleftrightarrow> x \<ge> 0 \<and> x < ARENA_W \<and> y \<ge> 0 \<and> y < ARENA_H"

definition pick_neighbor :: "int \<Rightarrow> int \<Rightarrow> 16 word \<Rightarrow> int \<times> int" where
  "pick_neighbor x y r =
     (let dir = r AND 3
      in if dir = 0 then (x, y - 1)
         else if dir = 1 then (x + 1, y)
         else if dir = 2 then (x, y + 1)
         else if dir = 3 then (x - 1, y)
         else (x, y))"

section \<open>Level init\<close>

text \<open>The assignment \<open>gs.grid.at(x, y).kind = k\<close>.\<close>

definition set_kind :: "Grid \<Rightarrow> int \<Rightarrow> int \<Rightarrow> CellKind \<Rightarrow> Grid" where
  "set_kind g x y k = set_at g x y ((at g x y)\<lparr>kind := k\<rparr>)"

text \<open>The two border loops of \<open>load_level1\<close>.\<close>

definition border_rows :: "Grid \<Rightarrow> Grid" where
  "border_rows g =
     foldl (\<lambda>g x. set_kind (set_kind g x 0 Wall) x (ARENA_H - 1) Wall) g [0..ARENA_W - 1]"

definition border_cols :: "Grid \<Rightarrow> Grid" where
  "border_cols g =
     foldl (\<lambda>g y. set_kind (set_kind g 0 y Wall) (ARENA_W - 1) y Wall) g [0..ARENA_H - 1]"

text \<open>The body of the nested loop over the interior, and the coordinates it visits in order.\<close>

definition fill_cell :: "PlayerState list \<Rightarrow> Grid \<Rightarrow> int \<times> int \<Rightarrow> Grid" where
  "fill_cell ps g = (\<lambda>(x, y).
     if x < ARENA_W div 2
     then set_at g x y ((at g x y)\<lparr>kind := Symbol, owner := 0, piece := current (ps ! 0)\<rparr>)
     else set_at g x y ((at g x y)\<lparr>kind := Symbol, owner := 1, piece := current (ps ! 1)\<rparr>))"

definition interior_coords :: "(int \<times> int) list" where
  "interior_coords = concat (map (\<lambda>y. map (\<lambda>x. (x, y)) [1..ARENA_W - 2]) [1..ARENA_H - 2])"

definition load_level1 :: "GameState \<Rightarrow> GameState" where
  "load_level1 gs =
     gs\<lparr>grid := foldl (fill_cell (players gs))
                     (border_cols (border_rows (clear (grid gs)))) interior_coords\<rparr>"

section \<open>AI update\<close>

text \<open>\<open>static_cast<Piece>((static_cast<int>(p) + 1) % 3)\<close>.\<close>

definition int_of_piece :: "Piece \<Rightarrow> int" where
  "int_of_piece p = (case p of Rock \<Rightarrow> 0 | Paper \<Rightarrow> 1 | Scissors \<Rightarrow> 2)"

definition piece_of_int :: "int \<Rightarrow> Piece" where
  "piece_of_int n = (if n = 0 then Rock else if n = 1 then Paper else Scissors)"

definition next_piece :: "Piece \<Rightarrow> Piece" where
  "next_piece p = piece_of_int (rem_trunc (int_of_piece p + 1) 3)"

text \<open>
  The sweep \<open>for y: for x: if (cell.kind == Symbol && cell.owner.v == v) cell.piece = pc\<close>,
  which the AI update, the rotation key and the debug button each contain.
\<close>

definition all_coords :: "(int \<times> int) list" where
  "all_coords = concat (map (\<lambda>y. map (\<lambda>x. (x, y)) [0..ARENA_W - 1]) [0..ARENA_H - 1])"

definition repaint_cell :: "PlayerId \<Rightarrow> Piece \<Rightarrow> Grid \<Rightarrow> int \<times> int \<Rightarrow> Grid" where
  "repaint_cell v pc g = (\<lambda>(x, y).
     let cell = at g x y
     in if kind cell = Symbol \<and> owner cell = v then set_at g x y (cell\<lparr>piece := pc\<rparr>) else g)"

definition repaint :: "Grid \<Rightarrow> PlayerId \<Rightarrow> Piece \<Rightarrow> Grid" where
  "repaint g v pc = foldl (repaint_cell v pc) g all_coords"

text \<open>
  \<open>update_albert_ai(gs, gs.players[i])\<close>: the player is a reference into \<open>gs.players\<close>, which
  nothing else in the function touches, so the model works on a copy and stores it back.
  The interval \<open>min_interval + (r % range)\<close> is an \<open>int\<close> assigned to the \<open>uint8_t\<close> field.
\<close>

definition update_albert_ai :: "GameState \<Rightarrow> nat \<Rightarrow> GameState" where
  "update_albert_ai gs0 i =
     (let player = players gs0 ! i;
          (gs, player) =
            (if rot_period player = 0 then
               (let (r, gs) = rngu gs0;
                    min_interval = rotation_average (albert_config gs)
                                   - rotation_half_interval (albert_config gs);
                    max_interval = rotation_average (albert_config gs)
                                   + rotation_half_interval (albert_config gs);
                    min_interval = max 1 min_interval;
                    range = max_interval - min_interval + 1
                in (gs, player\<lparr>rot_period := word_of_int (min_interval + rem_trunc (uint r) range)\<rparr>))
             else (gs0, player));
          (gs, player) =
            (if uint (tick gs) - uint (last_rot_tick player) \<ge> uint (rot_period player) then
               (let player = player\<lparr>current := next_piece (current player)\<rparr>;
                    player = player\<lparr>last_rot_tick := tick gs\<rparr>;
                    gs = gs\<lparr>grid := repaint (grid gs) (id_v player) (current player)\<rparr>;
                    (r, gs) = rngu gs;
                    min_interval = rotation_average (albert_config gs)
                                   - rotation_half_interval (albert_config gs);
                    max_interval = rotation_average (albert_config gs)
                                   + rotation_half_interval (albert_config gs);
                    min_interval = max 1 min_interval;
                    range = max_interval - min_interval + 1
                in (gs, player\<lparr>rot_period := word_of_int (min_interval + rem_trunc (uint r) range)\<rparr>))
             else (gs, player))
      in gs\<lparr>players := (players gs)[i := player]\<rparr>)"

section \<open>Combat resolution\<close>

text \<open>\<open>if (loser.v < gs.players.size()) gs.players[loser.v].tick_losses++;\<close>\<close>

definition count_loss :: "GameState \<Rightarrow> PlayerId \<Rightarrow> GameState" where
  "count_loss gs loser =
     (if unat loser < length (players gs)
      then gs\<lparr>players := (players gs)[unat loser :=
                (players gs ! unat loser)\<lparr>tick_losses := tick_losses (players gs ! unat loser) + 1\<rparr>]\<rparr>
      else gs)"

definition resolve_pair :: "GameState \<Rightarrow> int \<Rightarrow> int \<Rightarrow> int \<Rightarrow> int \<Rightarrow> GameState" where
  "resolve_pair gs x y nx ny =
     (if \<not> in_bounds nx ny then gs
      else
        let a = at (grid gs) x y;
            b = at (grid gs) nx ny
        in if kind a = Wall \<or> kind b = Wall then gs
           else if kind a = Empty \<and> kind b = Empty then gs
           else if kind a = Empty \<and> kind b = Symbol then gs\<lparr>grid := set_at (grid gs) x y b\<rparr>
           else if kind b = Empty \<and> kind a = Symbol then gs\<lparr>grid := set_at (grid gs) nx ny a\<rparr>
           else if kind a = Symbol \<and> kind b = Symbol then
             (if owner a = owner b then gs
              else if piece a = piece b then
                (let (r, gs) = rngu gs
                 in if r AND 1 \<noteq> 0
                    then count_loss (gs\<lparr>grid := set_at (grid gs) nx ny a\<rparr>) (owner b)
                    else count_loss (gs\<lparr>grid := set_at (grid gs) x y b\<rparr>) (owner a))
              else
                (let a_wins = (piece a = Rock \<and> piece b = Scissors)
                            \<or> (piece a = Scissors \<and> piece b = Paper)
                            \<or> (piece a = Paper \<and> piece b = Rock)
                 in if a_wins
                    then count_loss (gs\<lparr>grid := set_at (grid gs) nx ny a\<rparr>) (owner b)
                    else count_loss (gs\<lparr>grid := set_at (grid gs) x y b\<rparr>) (owner a)))
           else gs)"

text \<open>
  One iteration of the loop of \<open>resolve_pairs\<close>, on the game state and the three local
  counters \<open>battles_count\<close>, \<open>same_player_count\<close>, \<open>wall_empty_count\<close>.
\<close>

type_synonym pairs_state = "GameState \<times> int \<times> int \<times> int"

definition pair_attempt :: "pairs_state \<Rightarrow> pairs_state" where
  "pair_attempt = (\<lambda>(gs, battles_count, same_player_count, wall_empty_count).
     let (r1, gs) = rngu gs;
         (r2, gs) = rngu gs;
         x = rem_trunc (uint r1) ARENA_W;
         y = rem_trunc (uint r2) ARENA_H;
         (r3, gs) = rngu gs;
         (nx, ny) = pick_neighbor x y r3;
         (battles_count, same_player_count, wall_empty_count) =
           (if in_bounds nx ny then
              (let a = at (grid gs) x y;
                   b = at (grid gs) nx ny
               in if kind a = Wall \<or> kind b = Wall \<or> kind a = Empty \<or> kind b = Empty
                  then (battles_count, same_player_count, wall_empty_count + 1)
                  else if kind a = Symbol \<and> kind b = Symbol
                  then (if owner a = owner b
                        then (battles_count, same_player_count + 1, wall_empty_count)
                        else (battles_count + 1, same_player_count, wall_empty_count))
                  else (battles_count, same_player_count, wall_empty_count))
            else (battles_count, same_player_count, wall_empty_count))
     in (resolve_pair gs x y nx ny, battles_count, same_player_count, wall_empty_count))"

text \<open>\<open>for (int i = 0; i < count; ++i)\<close>: \<open>nat count\<close> iterations, none when \<open>count \<le> 0\<close>.\<close>

primrec pairs_loop :: "nat \<Rightarrow> pairs_state \<Rightarrow> pairs_state" where
  "pairs_loop 0 st = st"
| "pairs_loop (Suc n) st = pairs_loop n (pair_attempt st)"

definition resolve_pairs :: "GameState \<Rightarrow> int \<Rightarrow> GameState" where
  "resolve_pairs gs count =
     (let (gs, battles_count, same_player_count, wall_empty_count) =
            pairs_loop (nat count) (gs, 0, 0, 0)
      in gs\<lparr>last_battles := battles_count,
             last_attempts := count,
             last_same_player := same_player_count,
             last_wall_empty := wall_empty_count\<rparr>)"

section \<open>Game flow\<close>

text \<open>The scan of \<open>step_fixed\<close> that fills \<open>int player_counts[4]\<close>.\<close>

definition count_cell :: "Grid \<Rightarrow> int list \<Rightarrow> int \<times> int \<Rightarrow> int list" where
  "count_cell g player_counts = (\<lambda>(x, y).
     let c = at g x y
     in if kind c = Symbol \<and> owner c < 4
        then player_counts[unat (owner c) := player_counts ! unat (owner c) + 1]
        else player_counts)"

definition scan_counts :: "Grid \<Rightarrow> int list" where
  "scan_counts g = foldl (count_cell g) [0, 0, 0, 0] all_coords"

text \<open>
  The loop \<open>for (size_t i = 1; i < gs.players.size(); ++i) if (i == 1) update_albert_ai(...)\<close>.
\<close>

definition run_ai_updates :: "GameState \<Rightarrow> GameState" where
  "run_ai_updates gs =
     foldl (\<lambda>gs i. if i = 1 then update_albert_ai gs i else gs) gs [1..<length (players gs)]"

definition step_fixed :: "GameState \<Rightarrow> GameState" where
  "step_fixed gs0 =
     (case phase gs0 of
        Ready \<Rightarrow> gs0
      | Playing \<Rightarrow>
          (let gs = gs0\<lparr>tick := tick gs0 + 1\<rparr>;
               gs = gs\<lparr>players := map (\<lambda>player. player\<lparr>tick_losses := 0\<rparr>) (players gs)\<rparr>;
               gs = resolve_pairs gs (pairs_per_tick (cfg gs));
               player_counts = scan_counts (grid gs);
               gs = (if player_counts ! 0 = 0 \<and> player_counts ! 1 > 0 then gs\<lparr>phase := Lost\<rparr>
                     else if player_counts ! 1 = 0 \<and> player_counts ! 0 > 0 then gs\<lparr>phase := Won\<rparr>
                     else gs)
           in run_ai_updates gs)
      | Lost \<Rightarrow> gs0
      | Won \<Rightarrow> gs0
      | GameWon \<Rightarrow> gs0)"

text \<open>
  The state \<open>main\<close> builds before its loop: a default \<open>GameState\<close>, the two players, the level.
\<close>

definition default_state :: "(nat \<Rightarrow> 16 word) \<Rightarrow> GameState" where
  "default_state gen =
     \<lparr>grid = replicate (nat (ARENA_W * ARENA_H)) Cell0,
      cfg = \<lparr>pairs_per_tick = 240, ticks_per_second = 15\<rparr>,
      tick = 0, rng16 = 0xACE1, players = [], current_level = 1, phase = Ready,
      last_battles = 0, use_system_rng = False, sys_gen = gen,
      last_attempts = 0, last_same_player = 0, last_wall_empty = 0,
      albert_config = \<lparr>rotation_average = 58, rotation_half_interval = 43\<rparr>\<rparr>"

definition new_player :: "PlayerId \<Rightarrow> Piece \<Rightarrow> PlayerState" where
  "new_player v pc =
     \<lparr>id_v = v, current = pc, last_rot_tick = 0, tick_losses = 0, rot_period = 0, accel_ctr = 0\<rparr>"

definition initial_state :: "(nat \<Rightarrow> 16 word) \<Rightarrow> GameState" where
  "initial_state gen =
     load_level1 ((default_state gen)\<lparr>players := [new_player 0 Rock, new_player 1 Scissors]\<rparr>)"

text \<open>The SPACE key of \<open>main\<close>'s event loop, which acts according to the phase.\<close>

definition key_space :: "GameState \<Rightarrow> GameState" where
  "key_space gs =
     (if phase gs = Ready then gs\<lparr>phase := Playing\<rparr>
      else if phase gs = Playing then
        (let player = players gs ! 0;
             player = player\<lparr>current := next_piece (current player)\<rparr>;
             player = player\<lparr>last_rot_tick := tick gs\<rparr>
         in gs\<lparr>players := (players gs)[0 := player],
                grid := repaint (grid gs) 0 (current player)\<rparr>)
      else if phase gs = Won \<or> phase gs = Lost then
        (let gs = gs\<lparr>phase := Ready\<rparr>;
             gs = gs\<lparr>tick := 0\<rparr>;
             gs = gs\<lparr>players := (players gs)[0 := (players gs ! 0)\<lparr>current := Rock\<rparr>]\<rparr>;
             gs = gs\<lparr>players := (players gs)[1 := (players gs ! 1)\<lparr>current := Scissors\<rparr>]\<rparr>;
             gs = gs\<lparr>players := map (\<lambda>player. player\<lparr>tick_losses := 0, last_rot_tick := 0,
                                                       rot_period := 0\<rparr>) (players gs)\<rparr>
         in load_level1 gs)
      else gs)"

text \<open>The button "Force Albert Rotation" of \<open>draw_tuning_ui\<close>.\<close>

definition force_albert_rotation :: "GameState \<Rightarrow> GameState" where
  "force_albert_rotation gs =
     (if length (players gs) > 1 then
        (let albert = players gs ! 1;
             albert = albert\<lparr>current := next_piece (current albert)\<rparr>;
             albert = albert\<lparr>last_rot_tick := tick gs\<rparr>;
             albert = albert\<lparr>rot_period := 0\<rparr>
         in gs\<lparr>players := (players gs)[1 := albert],
                grid := repaint (grid gs) 1 (current albert)\<rparr>)
      else gs)"

section \<open>Notions the properties are stated with\<close>

text \<open>
  A grid keeps its walls: the same number of cells, and every cell that was a wall is the
  same cell afterwards (kind, owner and piece).
\<close>

definition walls_kept :: "Grid \<Rightarrow> Grid \<Rightarrow> bool" where
  "walls_kept g g' \<longleftrightarrow>
     length g' = length g \<and> (\<forall>k < length g. kind (g ! k) = Wall \<longrightarrow> g' ! k = g ! k)"

text \<open>
  Cell \<open>i\<close> became a copy of cell \<open>j\<close>: the new grid is the old one with the content of
  cell \<open>j\<close> written to cell \<open>i\<close>, and that changed the grid.
\<close>

definition became_copy :: "Grid \<Rightarrow> Grid \<Rightarrow> nat \<Rightarrow> nat \<Rightarrow> bool" where
  "became_copy g g' i j \<longleftrightarrow> g' = g[i := g ! j] \<and> g' \<noteq> g"

text \<open>The rule of the game in the specification's words: which piece beats which.\<close>

definition beats :: "Piece \<Rightarrow> Piece \<Rightarrow> bool" where
  "beats p q \<longleftrightarrow>
     (p = Rock \<and> q = Scissors) \<or> (p = Scissors \<and> q = Paper) \<or> (p = Paper \<and> q = Rock)"

text \<open>The player list with one more loss for the player at index \<open>v\<close>.\<close>

definition add_loss :: "PlayerState list \<Rightarrow> PlayerId \<Rightarrow> PlayerState list" where
  "add_loss ps v = ps[unat v := (ps ! unat v)\<lparr>tick_losses := tick_losses (ps ! unat v) + 1\<rparr>]"

text \<open>What the repainting sweep for player \<open>v\<close> and piece \<open>pc\<close> does to one cell.\<close>

definition paint :: "PlayerId \<Rightarrow> Piece \<Rightarrow> Cell \<Rightarrow> Cell" where
  "paint v pc c = (if kind c = Symbol \<and> owner c = v then c\<lparr>piece := pc\<rparr> else c)"

text \<open>
  Stages of a tick in the Playing phase: the state when the combat resolver has run (tick
  counter incremented, losses reset, pairs resolved), and the win/loss evaluation that
  \<open>step_fixed\<close> makes of such a state.
\<close>

definition after_combat :: "GameState \<Rightarrow> GameState" where
  "after_combat gs =
     resolve_pairs
       (gs\<lparr>tick := tick gs + 1,
           players := map (\<lambda>player. player\<lparr>tick_losses := 0\<rparr>) (players gs)\<rparr>)
       (pairs_per_tick (cfg gs))"

definition win_loss_check :: "GameState \<Rightarrow> GameState" where
  "win_loss_check gs =
     (let player_counts = scan_counts (grid gs)
      in if player_counts ! 0 = 0 \<and> player_counts ! 1 > 0 then gs\<lparr>phase := Lost\<rparr>
         else if player_counts ! 1 = 0 \<and> player_counts ! 0 > 0 then gs\<lparr>phase := Won\<rparr>
         else gs)"

text \<open>The outer ring of the arena, and the grids whose outer ring is all walls.\<close>

definition is_border :: "int \<Rightarrow> int \<Rightarrow> bool" where
  "is_border x y \<longleftrightarrow> x = 0 \<or> x = ARENA_W - 1 \<or> y = 0 \<or> y = ARENA_H - 1"

definition border_walls :: "Grid \<Rightarrow> bool" where
  "border_walls g \<longleftrightarrow> (\<forall>(x, y) \<in> set all_coords. is_border x y \<longrightarrow> kind (at g x y) = Wall)"

text \<open>
  What happens to the game state from outside between two frames: a simulation tick, the
  SPACE key, and the tuning panel: its sliders and checkbox setting the tunables, and its
  buttons "Force Albert Rotation", "Reset Albert Timer" and "Reset Albert Config".
\<close>

datatype input =
    Tick
  | Space
  | Tune GameConfig AlbertConfig bool
  | ForceRotation
  | ResetTimer
  | ResetConfig

fun handle :: "GameState \<Rightarrow> input \<Rightarrow> GameState" where
  "handle gs Tick = step_fixed gs"
| "handle gs Space = key_space gs"
| "handle gs (Tune c a b) = gs\<lparr>cfg := c, albert_config := a, use_system_rng := b\<rparr>"
| "handle gs ForceRotation = force_albert_rotation gs"
| "handle gs ResetTimer =
     (if length (players gs) > 1
      then gs\<lparr>players := (players gs)[1 := (players gs ! 1)\<lparr>rot_period := 0\<rparr>]\<rparr>
      else gs)"
| "handle gs ResetConfig =
     (if length (players gs) > 1
      then gs\<lparr>albert_config := \<lparr>rotation_average = 58, rotation_half_interval = 43\<rparr>,
              players := (players gs)[1 := (players gs ! 1)\<lparr>rot_period := 0\<rparr>]\<rparr>
      else gs)"

text \<open>
  The owner for whom \<open>resolve_pair\<close> books a loss at a pair (its local \<open>loser\<close>), if the pair
  is fought at all; the same for the pair an attempt of the loop selects; and from these the
  number of duels an owner loses in the first \<open>n\<close> attempts of the loop, and in a whole tick.
\<close>

definition duel_loser :: "GameState \<Rightarrow> int \<Rightarrow> int \<Rightarrow> int \<Rightarrow> int \<Rightarrow> PlayerId option" where
  "duel_loser gs x y nx ny =
     (let a = at (grid gs) x y;
          b = at (grid gs) nx ny
      in if in_bounds nx ny \<and> kind a = Symbol \<and> kind b = Symbol \<and> owner a \<noteq> owner b
         then (if piece a = piece b
               then (if fst (rngu gs) AND 1 \<noteq> 0 then Some (owner b) else Some (owner a))
               else (if beats (piece a) (piece b) then Some (owner b) else Some (owner a)))
         else None)"

definition attempt_loser :: "pairs_state \<Rightarrow> PlayerId option" where
  "attempt_loser st =
     (let (r1, gs) = rngu (fst st);
          (r2, gs) = rngu gs;
          x = rem_trunc (uint r1) ARENA_W;
          y = rem_trunc (uint r2) ARENA_H;
          (r3, gs) = rngu gs;
          (nx, ny) = pick_neighbor x y r3
      in duel_loser gs x y nx ny)"

primrec losses_in :: "nat \<Rightarrow> pairs_state \<Rightarrow> PlayerId \<Rightarrow> nat" where
  "losses_in 0 st v = 0"
| "losses_in (Suc n) st v =
     (if attempt_loser st = Some v then 1 else 0) + losses_in n (pair_attempt st) v"

definition tick_duel_losses :: "GameState \<Rightarrow> PlayerId \<Rightarrow> nat" where
  "tick_duel_losses gs v =
     losses_in (nat (pairs_per_tick (cfg gs)))
       (gs\<lparr>tick := tick gs + 1,
           players := map (\<lambda>player. player\<lparr>tick_losses := 0\<rparr>) (players gs)\<rparr>, 0, 0, 0) v"

text \<open>The content of the cell at \<open>(x, y)\<close> in the level as loaded, for the players \<open>ps\<close>.\<close>

definition level_cell :: "PlayerState list \<Rightarrow> int \<Rightarrow> int \<Rightarrow> Cell" where
  "level_cell ps x y =
     (if is_border x y then \<lparr>kind = Wall, owner = 0, piece = Rock\<rparr>
      else if x < ARENA_W div 2 then \<lparr>kind = Symbol, owner = 0, piece = current (ps ! 0)\<rparr>
      else \<lparr>kind = Symbol, owner = 1, piece = current (ps ! 1)\<rparr>)"

section \<open>States the properties are shown at\<close>

text \<open>
  A state in play with two opposed cells side by side: a Rock of player 0 at \<open>(1, 1)\<close> and
  Scissors of player 1 at \<open>(2, 1)\<close>, everything else empty.
\<close>

definition duel_state :: GameState where
  "duel_state =
     (default_state (\<lambda>_. 0))
       \<lparr>grid := (replicate 960 Cell0)
                   [41 := \<lparr>kind = Symbol, owner = 0, piece = Rock\<rparr>,
                    42 := \<lparr>kind = Symbol, owner = 1, piece = Scissors\<rparr>],
        players := [new_player 0 Rock, new_player 1 Scissors],
        phase := Playing\<rparr>"

text \<open>
  States in play with no pair attempts per tick: one where the only Symbol cell belongs to
  player 1, and one with an empty grid.
\<close>

definition lone_cell_state :: GameState where
  "lone_cell_state =
     (default_state (\<lambda>_. 0))
       \<lparr>grid := (replicate 960 Cell0)[41 := \<lparr>kind = Symbol, owner = 1, piece = Scissors\<rparr>],
        cfg := \<lparr>pairs_per_tick = 0, ticks_per_second = 15\<rparr>,
        players := [new_player 0 Rock, new_player 1 Scissors],
        phase := Playing\<rparr>"

definition barren_state :: GameState where
  "barren_state =
     (default_state (\<lambda>_. 0))
       \<lparr>cfg := \<lparr>pairs_per_tick = 0, ticks_per_second = 15\<rparr>,
        players := [new_player 0 Rock, new_player 1 Scissors],
        phase := Playing\<rparr>"

text \<open>
  The state \<open>lone_cell_state\<close> when player 1's rotation interval, of one tick, has run out.
\<close>

definition rotation_due_state :: GameState where
  "rotation_due_state =
     lone_cell_state\<lparr>players := [new_player 0 Rock, (new_player 1 Scissors)\<lparr>rot_period := 1\<rparr>]\<rparr>"

text \<open>
  The tuning panel's widest interval: average 200 and half interval 100, the maxima of the
  two sliders; the register is one step before the value 200.
\<close>

definition wide_interval_state :: GameState where
  "wide_interval_state =
     (default_state (\<lambda>_. 0))
       \<lparr>rng16 := 0x0190,
        players := [new_player 0 Rock, new_player 1 Scissors],
        phase := Playing,
        albert_config := \<lparr>rotation_average = 200, rotation_half_interval = 100\<rparr>\<rparr>"

text \<open>
  A tick in which player 1 loses 256 duels. The state is the one \<open>main\<close> starts from, in play,
  with 256 pair attempts per tick and the system generator selected; the generator returns
  the stream \<open>sweep_gen\<close>, whose \<open>k\<close>-th attempt pairs the cell at
  \<open>(19 + k mod 19, 1 + k div 19)\<close> with its eastern neighbour. After \<open>k\<close> attempts the grid is the
  loaded level with the first \<open>k\<close> cells of player 1, row by row, taken by player 0
  (\<open>sweep_cell\<close>); \<open>sweep_inv\<close> is the invariant of the loop.
\<close>

definition sweep_gen :: "nat \<Rightarrow> 16 word" where
  "sweep_gen n = (if n mod 3 = 0 then of_nat (19 + (n div 3) mod 19)
                  else if n mod 3 = 1 then of_nat (1 + (n div 3) div 19)
                  else 1)"

definition sweep_state :: GameState where
  "sweep_state = (initial_state sweep_gen)
     \<lparr>phase := Playing, use_system_rng := True,
      cfg := \<lparr>pairs_per_tick = 256, ticks_per_second = 15\<rparr>\<rparr>"

definition sweep_cell :: "nat \<Rightarrow> int \<Rightarrow> int \<Rightarrow> Cell" where
  "sweep_cell k x y =
     (if is_border x y then \<lparr>kind = Wall, owner = 0, piece = Rock\<rparr>
      else if x < 20 \<or> (y - 1) * 19 + (x - 20) < int k
      then \<lparr>kind = Symbol, owner = 0, piece = Rock\<rparr>
      else \<lparr>kind = Symbol, owner = 1, piece = Scissors\<rparr>)"

definition sweep_inv :: "nat \<Rightarrow> GameState \<Rightarrow> bool" where
  "sweep_inv k gs \<longleftrightarrow>
     grid_ok (grid gs) \<and> use_system_rng gs \<and> sys_gen gs = (\<lambda>n. sweep_gen (3 * k + n))
     \<and> (\<forall>x y. in_bounds x y \<longrightarrow> at (grid gs) x y = sweep_cell k x y)"

section \<open>The feedback register never stalls\<close>

lemma word16_drop_bit_1_zero:
  fixes s :: "16 word"
  assumes "drop_bit 1 s = 0"
  shows "s = 0 \<or> s = 1"
proof -
  have "push_bit 1 (drop_bit 1 s) + take_bit 1 s = s"
    by (rule bits_ident)
  with assms have "take_bit 1 s = s" by simp
  then have "s mod 2 = s" by (simp add: take_bit_eq_mod)
  moreover have "s mod 2 < 2" by (rule word_mod_less_divisor) simp
  ultimately have "s < 2" by simp
  then have "unat s < 2" by (simp add: word_less_nat_alt)
  then have "unat s = 0 \<or> unat s = 1" by arith
  then show ?thesis by (auto simp: word_unat_eq_iff)
qed

lemma lfsr16_step_zero:
  assumes "lfsr16_step s = 0"
  shows "s = 0"
proof -
  from assms have "drop_bit 1 s = 0"
    by (simp add: lfsr16_step_def Let_def or_eq_0_iff)
  then have "s = 0 \<or> s = 1" by (rule word16_drop_bit_1_zero)
  then show ?thesis
  proof
    assume "s = 1"
    with assms show ?thesis by (simp add: lfsr16_step_def Let_def)
  qed
qed

lemma lfsr16_iterate_nonzero: "s \<noteq> 0 \<Longrightarrow> (lfsr16_step ^^ n) s \<noteq> 0"
  by (induction n) (auto dest: lfsr16_step_zero)

text \<open>
  Claim C9. The successor of a non-zero register state is non-zero, so the register, seeded
  with \<open>0xACE1\<close>, is non-zero after any number of steps.
\<close>

theorem lfsr16_never_zero:
  "(s \<noteq> 0 \<longrightarrow> lfsr16_step s \<noteq> 0) \<and> (lfsr16_step ^^ n) 0xACE1 \<noteq> 0"
proof
  show "s \<noteq> 0 \<longrightarrow> lfsr16_step s \<noteq> 0"
    by (auto dest: lfsr16_step_zero)
  show "(lfsr16_step ^^ n) 0xACE1 \<noteq> 0"
    by (rule lfsr16_iterate_nonzero) simp
qed

theorem lfsr16_never_zero_witness:
  "(0xACE1 :: 16 word) \<noteq> 0 \<and> lfsr16_step 0xACE1 \<noteq> 0 \<and> (lfsr16_step ^^ 2) 0xACE1 \<noteq> 0"
  using lfsr16_never_zero [of "0xACE1" 2] by simp

section \<open>Frame and index lemmas\<close>

lemma rngu_frame [simp]:
  "grid (snd (rngu gs)) = grid gs"
  "players (snd (rngu gs)) = players gs"
  "cfg (snd (rngu gs)) = cfg gs"
  "tick (snd (rngu gs)) = tick gs"
  "phase (snd (rngu gs)) = phase gs"
  "current_level (snd (rngu gs)) = current_level gs"
  "use_system_rng (snd (rngu gs)) = use_system_rng gs"
  "albert_config (snd (rngu gs)) = albert_config gs"
  "last_battles (snd (rngu gs)) = last_battles gs"
  "last_attempts (snd (rngu gs)) = last_attempts gs"
  "last_same_player (snd (rngu gs)) = last_same_player gs"
  "last_wall_empty (snd (rngu gs)) = last_wall_empty gs"
  by (simp_all add: rngu_def)

lemma count_loss_frame [simp]:
  "grid (count_loss gs v) = grid gs"
  "cfg (count_loss gs v) = cfg gs"
  "tick (count_loss gs v) = tick gs"
  "phase (count_loss gs v) = phase gs"
  "rng16 (count_loss gs v) = rng16 gs"
  "sys_gen (count_loss gs v) = sys_gen gs"
  "current_level (count_loss gs v) = current_level gs"
  "use_system_rng (count_loss gs v) = use_system_rng gs"
  "albert_config (count_loss gs v) = albert_config gs"
  "length (players (count_loss gs v)) = length (players gs)"
  by (simp_all add: count_loss_def)

lemma rem_trunc_mod: "0 \<le> a \<Longrightarrow> 0 < b \<Longrightarrow> rem_trunc a b = a mod b"
  by (cases "a = 0") (simp_all add: rem_trunc_def sgn_if)

lemma idx_bound: "in_bounds x y \<Longrightarrow> nat (idx x y) < 960"
  by (auto simp: in_bounds_def idx_def ARENA_W_def ARENA_H_def)

lemma idx_in_grid: "grid_ok g \<Longrightarrow> in_bounds x y \<Longrightarrow> nat (idx x y) < length g"
  by (auto simp: grid_ok_def in_bounds_def idx_def ARENA_W_def ARENA_H_def)

lemma idx_inj:
  assumes "in_bounds x y" "in_bounds x' y'" "nat (idx x y) = nat (idx x' y')"
  shows "x = x' \<and> y = y'"
proof -
  from assms(1,2) have b: "0 \<le> x" "x < 40" "0 \<le> y" "0 \<le> x'" "x' < 40" "0 \<le> y'"
    by (auto simp: in_bounds_def ARENA_W_def)
  with assms(3) have e: "y * 40 + x = y' * 40 + x'"
    by (simp add: idx_def ARENA_W_def)
  then have "(y * 40 + x) mod 40 = (y' * 40 + x') mod 40" by simp
  with b have "x = x'" by simp
  with e show ?thesis by simp
qed


lemma resolve_pair_grid_cases:
  "grid (resolve_pair gs x y nx ny) = grid gs
   \<or> (in_bounds nx ny \<and> kind (at (grid gs) x y) \<noteq> Wall \<and> kind (at (grid gs) nx ny) \<noteq> Wall
       \<and> at (grid gs) x y \<noteq> at (grid gs) nx ny
       \<and> (grid (resolve_pair gs x y nx ny) = set_at (grid gs) x y (at (grid gs) nx ny)
          \<or> grid (resolve_pair gs x y nx ny) = set_at (grid gs) nx ny (at (grid gs) x y)))"
  unfolding resolve_pair_def
  by (auto simp: Let_def case_prod_beta)


lemma length_set_at [simp]: "length (set_at g x y c) = length g"
  by (simp add: set_at_def)

lemma grid_ok_set_at [simp]: "grid_ok (set_at g x y c) = grid_ok g"
  by (simp add: grid_ok_def)

lemma walls_kept_refl [simp]: "walls_kept g g"
  by (simp add: walls_kept_def)

lemma walls_kept_trans: "walls_kept g g' \<Longrightarrow> walls_kept g' g'' \<Longrightarrow> walls_kept g g''"
  by (auto simp: walls_kept_def)

lemma walls_kept_set_at:
  "kind (at g x y) \<noteq> Wall \<Longrightarrow> walls_kept g (set_at g x y c)"
  by (cases "nat (idx x y) < length g")
     (auto simp: walls_kept_def set_at_def at_def nth_list_update)

lemma resolve_pair_walls_kept: "walls_kept (grid gs) (grid (resolve_pair gs x y nx ny))"
  using resolve_pair_grid_cases [of gs x y nx ny]
  by (auto simp: walls_kept_set_at)

lemma resolve_pair_frame [simp]:
  "cfg (resolve_pair gs x y nx ny) = cfg gs"
  "tick (resolve_pair gs x y nx ny) = tick gs"
  "phase (resolve_pair gs x y nx ny) = phase gs"
  "current_level (resolve_pair gs x y nx ny) = current_level gs"
  "use_system_rng (resolve_pair gs x y nx ny) = use_system_rng gs"
  "albert_config (resolve_pair gs x y nx ny) = albert_config gs"
  "length (players (resolve_pair gs x y nx ny)) = length (players gs)"
  "length (grid (resolve_pair gs x y nx ny)) = length (grid gs)"
  unfolding resolve_pair_def
  by (simp_all add: Let_def case_prod_beta)


section \<open>Duels\<close>

lemma became_copy_one_way:
  assumes "i < length g" "g ! i \<noteq> g ! j"
  shows "became_copy g (g[i := g ! j]) i j" and "\<not> became_copy g (g[i := g ! j]) j i"
proof -
  from assms have ne: "g[i := g ! j] \<noteq> g"
    by (metis nth_list_update_eq)
  then show "became_copy g (g[i := g ! j]) i j"
    by (simp add: became_copy_def)
  show "\<not> became_copy g (g[i := g ! j]) j i"
  proof
    assume "became_copy g (g[i := g ! j]) j i"
    then have "g[i := g ! j] = g[j := g ! i]" by (simp add: became_copy_def)
    then have "g[i := g ! j] ! i = g[j := g ! i] ! i" by simp
    with assms show False
      by (cases "i = j") (simp_all add: nth_list_update)
  qed
qed

text \<open>
  Claim C5. One pair attempt either leaves the grid as it is, or exactly one of the two
  paired cells became an exact copy of the other (kind, owner and piece at once); exactly
  one of these holds. No other cell changes, and every cell of the new grid holds what that
  cell or one of the two paired cells held before.
\<close>

theorem duel_copies_or_nothing:
  assumes "grid_ok (grid gs)" and "in_bounds x y"
  shows "let g = grid gs; g' = grid (resolve_pair gs x y nx ny);
             i = nat (idx x y); j = nat (idx nx ny)
         in ((g' = g \<and> \<not> became_copy g g' i j \<and> \<not> became_copy g g' j i)
             \<or> (in_bounds nx ny \<and> became_copy g g' i j \<and> \<not> became_copy g g' j i)
             \<or> (in_bounds nx ny \<and> became_copy g g' j i \<and> \<not> became_copy g g' i j))
            \<and> length g' = length g
            \<and> (\<forall>k < length g. g' ! k = g ! k \<or> g' ! k = g ! i \<or> g' ! k = g ! j)"
proof -
  let ?g = "grid gs" and ?g' = "grid (resolve_pair gs x y nx ny)"
  let ?i = "nat (idx x y)" and ?j = "nat (idx nx ny)"
  from assms have i: "?i < length ?g" by (rule idx_in_grid)
  consider (same) "?g' = ?g"
    | (a) "in_bounds nx ny" "?g ! ?i \<noteq> ?g ! ?j" "?g' = ?g[?i := ?g ! ?j]"
    | (b) "in_bounds nx ny" "?g ! ?i \<noteq> ?g ! ?j" "?g' = ?g[?j := ?g ! ?i]"
    using resolve_pair_grid_cases [of gs x y nx ny] by (auto simp: at_def set_at_def)
  then show ?thesis
  proof cases
    case same
    then show ?thesis by (simp add: became_copy_def Let_def)
  next
    case a
    with i became_copy_one_way [of ?i ?g ?j] show ?thesis
      by (auto simp: Let_def nth_list_update)
  next
    case b
    from b(1) assms(1) have "?j < length ?g" by (simp add: idx_in_grid)
    with b became_copy_one_way [of ?j ?g ?i] show ?thesis
      by (auto simp: Let_def nth_list_update)
  qed
qed


lemma beats_asym: "p \<noteq> q \<Longrightarrow> beats p q \<noteq> beats q p"
  by (cases p; cases q) (simp_all add: beats_def)

lemma resolve_pair_rps:
  assumes "in_bounds nx ny"
    and "a = at (grid gs) x y" and "b = at (grid gs) nx ny"
    and "kind a = Symbol" and "kind b = Symbol"
    and "owner a \<noteq> owner b" and "piece a \<noteq> piece b"
  shows "resolve_pair gs x y nx ny =
           (if beats (piece a) (piece b)
            then count_loss (gs\<lparr>grid := set_at (grid gs) nx ny a\<rparr>) (owner b)
            else count_loss (gs\<lparr>grid := set_at (grid gs) x y b\<rparr>) (owner a))"
  using assms unfolding resolve_pair_def beats_def
  by (simp add: Let_def)

text \<open>
  Claim C7. In a duel between two Symbol cells of different players holding different
  pieces, the winner is the one whose piece beats the other's (Rock beats Scissors, Scissors
  beats Paper, Paper beats Rock) and never the other; the loser's cell becomes an exact copy
  of the winner's cell, and the losing player's \<open>tick_losses\<close> is incremented.
\<close>

theorem rps_dominance:
  assumes "grid_ok (grid gs)" and "in_bounds x y" and "in_bounds nx ny"
    and "a = at (grid gs) x y" and "b = at (grid gs) nx ny"
    and "kind a = Symbol" and "kind b = Symbol"
    and "owner a \<noteq> owner b" and "piece a \<noteq> piece b"
    and "unat (owner a) < length (players gs)" and "unat (owner b) < length (players gs)"
    and "gs' = resolve_pair gs x y nx ny"
  shows "(beats (piece a) (piece b) \<and> \<not> beats (piece b) (piece a)
            \<and> at (grid gs') x y = a \<and> at (grid gs') nx ny = a
            \<and> grid gs' = (grid gs)[nat (idx nx ny) := a]
            \<and> players gs' = add_loss (players gs) (owner b)
            \<and> tick_losses (players gs' ! unat (owner b))
                = tick_losses (players gs ! unat (owner b)) + 1)
         \<or> (beats (piece b) (piece a) \<and> \<not> beats (piece a) (piece b)
            \<and> at (grid gs') x y = b \<and> at (grid gs') nx ny = b
            \<and> grid gs' = (grid gs)[nat (idx x y) := b]
            \<and> players gs' = add_loss (players gs) (owner a)
            \<and> tick_losses (players gs' ! unat (owner a))
                = tick_losses (players gs ! unat (owner a)) + 1)"
proof -
  from assms have i: "nat (idx x y) < length (grid gs)" and j: "nat (idx nx ny) < length (grid gs)"
    by (simp_all add: idx_in_grid)
  have ne: "nat (idx x y) \<noteq> nat (idx nx ny)"
    using assms(4,5,8) by (auto simp: at_def)
  have rp: "gs' = (if beats (piece a) (piece b)
            then count_loss (gs\<lparr>grid := set_at (grid gs) nx ny a\<rparr>) (owner b)
            else count_loss (gs\<lparr>grid := set_at (grid gs) x y b\<rparr>) (owner a))"
    using assms resolve_pair_rps by simp
  show ?thesis
  proof (cases "beats (piece a) (piece b)")
    case True
    with beats_asym [OF assms(9)] have "\<not> beats (piece b) (piece a)" by simp
    with True rp i j ne assms(4,5,10,11) show ?thesis
      by (simp add: count_loss_def add_loss_def set_at_def at_def)
  next
    case False
    with beats_asym [OF assms(9)] have "beats (piece b) (piece a)" by simp
    with False rp i j ne assms(4,5,10,11) show ?thesis
      by (simp add: count_loss_def add_loss_def set_at_def at_def)
  qed
qed

lemma duel_state_simps:
  "grid_ok (grid duel_state)"
  "at (grid duel_state) 1 1 = \<lparr>kind = Symbol, owner = 0, piece = Rock\<rparr>"
  "at (grid duel_state) 2 1 = \<lparr>kind = Symbol, owner = 1, piece = Scissors\<rparr>"
  "players duel_state = [new_player 0 Rock, new_player 1 Scissors]"
  by (simp_all add: duel_state_def default_state_def grid_ok_def at_def idx_def ARENA_W_def ARENA_H_def)

theorem rps_dominance_witness:
  "grid_ok (grid duel_state) \<and> in_bounds 1 1 \<and> in_bounds 2 1
   \<and> at (grid duel_state) 1 1 = \<lparr>kind = Symbol, owner = 0, piece = Rock\<rparr>
   \<and> at (grid duel_state) 2 1 = \<lparr>kind = Symbol, owner = 1, piece = Scissors\<rparr>
   \<and> at (grid (resolve_pair duel_state 1 1 2 1)) 1 1 = \<lparr>kind = Symbol, owner = 0, piece = Rock\<rparr>
   \<and> at (grid (resolve_pair duel_state 1 1 2 1)) 2 1 = \<lparr>kind = Symbol, owner = 0, piece = Rock\<rparr>
   \<and> tick_losses (players (resolve_pair duel_state 1 1 2 1) ! 1) = 1"
proof -
  have b: "in_bounds 1 1" "in_bounds 2 1"
    by (simp_all add: in_bounds_def ARENA_W_def ARENA_H_def)
  have "unat (owner \<lparr>kind = Symbol, owner = 0, piece = Rock\<rparr>) < length (players duel_state)"
    and "unat (owner \<lparr>kind = Symbol, owner = 1, piece = Scissors\<rparr>) < length (players duel_state)"
    by (simp_all add: duel_state_simps)
  from rps_dominance [OF duel_state_simps(1) b duel_state_simps(2,3) [symmetric] _ _ _ _ this refl]
  show ?thesis
    by (simp add: duel_state_simps b beats_def new_player_def add_loss_def)
       (simp add: duel_state_def at_def idx_def ARENA_W_def)
qed


lemma duel_state_resolved:
  "grid (resolve_pair duel_state 1 1 2 1)
     = (grid duel_state)[42 := \<lparr>kind = Symbol, owner = 0, piece = Rock\<rparr>]"
proof -
  have "in_bounds 2 1" by (simp add: in_bounds_def ARENA_W_def ARENA_H_def)
  from resolve_pair_rps [OF this duel_state_simps(2,3) [symmetric]]
  show ?thesis
    by (simp add: beats_def set_at_def idx_def ARENA_W_def)
qed

theorem duel_copies_or_nothing_witness:
  "grid_ok (grid duel_state) \<and> in_bounds 1 1
   \<and> grid (resolve_pair duel_state 1 1 2 1) \<noteq> grid duel_state
   \<and> became_copy (grid duel_state) (grid (resolve_pair duel_state 1 1 2 1)) 42 41
   \<and> \<not> became_copy (grid duel_state) (grid (resolve_pair duel_state 1 1 2 1)) 41 42"
proof -
  have b: "in_bounds 1 1" by (simp add: in_bounds_def ARENA_W_def ARENA_H_def)
  have i: "nat (idx 1 1) = 41" "nat (idx 2 1) = 42" by (simp_all add: idx_def ARENA_W_def)
  have ne: "grid (resolve_pair duel_state 1 1 2 1) ! 42 \<noteq> grid duel_state ! 42"
    by (simp add: duel_state_resolved) (simp add: duel_state_def)
  then have "grid (resolve_pair duel_state 1 1 2 1) \<noteq> grid duel_state" by auto
  with duel_copies_or_nothing [OF duel_state_simps(1) b, of 2 1] ne
  show ?thesis
    by (auto simp: Let_def i duel_state_simps b became_copy_def)
qed


section \<open>Attempts whose neighbour is outside the grid\<close>

lemma resolve_pair_outside: "\<not> in_bounds nx ny \<Longrightarrow> resolve_pair gs x y nx ny = gs"
  by (simp add: resolve_pair_def)

lemma rngu_only_rng: "snd (rngu gs) = gs\<lparr>rng16 := rng16 (snd (rngu gs)), sys_gen := sys_gen (snd (rngu gs))\<rparr>"
  by (simp add: rngu_def)

text \<open>
  Claim C8. When the neighbour selected by a pair attempt falls outside the grid, the attempt
  is discarded: \<open>resolve_pair\<close> returns the state it was given, the grid and the players are
  those before the attempt, and none of the three counters (battles, same-player,
  wall/empty) moves. All the attempt leaves behind is the generator's state, advanced by the
  three draws that selected the pair.
\<close>

theorem out_of_grid_attempt_discarded:
  assumes "rngu gs = (r1, gs1)" and "rngu gs1 = (r2, gs2)" and "rngu gs2 = (r3, gs3)"
    and "x = rem_trunc (uint r1) ARENA_W" and "y = rem_trunc (uint r2) ARENA_H"
    and "pick_neighbor x y r3 = (nx, ny)" and "\<not> in_bounds nx ny"
  shows "pair_attempt (gs, battles_count, same_player_count, wall_empty_count)
           = (gs3, battles_count, same_player_count, wall_empty_count)
         \<and> resolve_pair gs3 x y nx ny = gs3
         \<and> grid gs3 = grid gs \<and> players gs3 = players gs
         \<and> gs3 = gs\<lparr>rng16 := rng16 gs3, sys_gen := sys_gen gs3\<rparr>"
proof -
  have g1: "gs1 = snd (rngu gs)" and g2: "gs2 = snd (rngu gs1)" and g3: "gs3 = snd (rngu gs2)"
    using assms(1-3) by simp_all
  have "gs1 = gs\<lparr>rng16 := rng16 gs1, sys_gen := sys_gen gs1\<rparr>"
    unfolding g1 by (rule rngu_only_rng)
  moreover have "gs2 = gs1\<lparr>rng16 := rng16 gs2, sys_gen := sys_gen gs2\<rparr>"
    unfolding g2 by (rule rngu_only_rng)
  moreover have "gs3 = gs2\<lparr>rng16 := rng16 gs3, sys_gen := sys_gen gs3\<rparr>"
    unfolding g3 by (rule rngu_only_rng)
  ultimately have only: "gs3 = gs\<lparr>rng16 := rng16 gs3, sys_gen := sys_gen gs3\<rparr>"
    by (metis (no_types, lifting) GameState.update_convs(4,10) GameState.surjective)
  have "pair_attempt (gs, battles_count, same_player_count, wall_empty_count)
           = (gs3, battles_count, same_player_count, wall_empty_count)"
    using assms by (simp add: pair_attempt_def resolve_pair_outside)
  moreover have "grid gs3 = grid gs" "players gs3 = players gs"
    by (simp_all add: g1 g2 g3)
  ultimately show ?thesis
    using only assms(7) by (simp add: resolve_pair_outside)
qed


lemma lfsr16_values:
  "lfsr16_step 0xDC43 = 60961" "lfsr16_step 60961 = 30480" "lfsr16_step 30480 = 15240"
  by (simp_all add: lfsr16_step_def)

theorem out_of_grid_attempt_discarded_witness:
  "rngu (duel_state\<lparr>rng16 := 0xDC43\<rparr>) = (60961, duel_state\<lparr>rng16 := 60961\<rparr>)
   \<and> rngu (duel_state\<lparr>rng16 := 60961\<rparr>) = (30480, duel_state\<lparr>rng16 := 30480\<rparr>)
   \<and> rngu (duel_state\<lparr>rng16 := 30480\<rparr>) = (15240, duel_state\<lparr>rng16 := 15240\<rparr>)
   \<and> rem_trunc (uint (60961 :: 16 word)) ARENA_W = 1
   \<and> rem_trunc (uint (30480 :: 16 word)) ARENA_H = 0
   \<and> pick_neighbor 1 0 15240 = (1, - 1)
   \<and> \<not> in_bounds 1 (- 1)
   \<and> pair_attempt (duel_state\<lparr>rng16 := 0xDC43\<rparr>, 5, 6, 7) = (duel_state\<lparr>rng16 := 15240\<rparr>, 5, 6, 7)
   \<and> grid (duel_state\<lparr>rng16 := 15240\<rparr>) = grid (duel_state\<lparr>rng16 := 0xDC43\<rparr>)
   \<and> players (duel_state\<lparr>rng16 := 15240\<rparr>) = players (duel_state\<lparr>rng16 := 0xDC43\<rparr>)"
proof -
  have r: "rngu (duel_state\<lparr>rng16 := 0xDC43\<rparr>) = (60961, duel_state\<lparr>rng16 := 60961\<rparr>)"
    "rngu (duel_state\<lparr>rng16 := 60961\<rparr>) = (30480, duel_state\<lparr>rng16 := 30480\<rparr>)"
    "rngu (duel_state\<lparr>rng16 := 30480\<rparr>) = (15240, duel_state\<lparr>rng16 := 15240\<rparr>)"
    by (simp_all add: rngu_def lfsr16_values duel_state_def default_state_def)
  have x: "1 = rem_trunc (uint (60961 :: 16 word)) ARENA_W"
    and y: "0 = rem_trunc (uint (30480 :: 16 word)) ARENA_H"
    by (simp_all add: rem_trunc_def ARENA_W_def ARENA_H_def)
  have n: "pick_neighbor 1 0 15240 = (1, - 1)"
    by (simp add: pick_neighbor_def)
  have o: "\<not> in_bounds 1 (- 1)"
    by (simp add: in_bounds_def)
  from out_of_grid_attempt_discarded [OF r x y n o, of 5 6 7] r x y n o
  show ?thesis by simp
qed


section \<open>The loop of pair attempts\<close>

lemma pair_attempt_fst:
  "\<exists>gs3 x y nx ny. fst (pair_attempt (gs, b, s, w)) = resolve_pair gs3 x y nx ny
      \<and> gs3 = snd (rngu (snd (rngu (snd (rngu gs)))))"
  by (simp add: pair_attempt_def case_prod_beta Let_def) blast

lemma attempt_cell_in_bounds:
  "in_bounds (rem_trunc (uint (r1 :: 16 word)) ARENA_W) (rem_trunc (uint (r2 :: 16 word)) ARENA_H)"
  by (simp add: in_bounds_def rem_trunc_mod ARENA_W_def ARENA_H_def)

text \<open>
  Every attempt of the loop resolves a pair whose first cell is inside the grid, on the grid
  and the players the attempt started from.
\<close>

lemma pair_attempt_resolves:
  "\<exists>gs3 x y nx ny. in_bounds x y \<and> grid gs3 = grid (fst st) \<and> players gs3 = players (fst st)
      \<and> fst (pair_attempt st) = resolve_pair gs3 x y nx ny"
proof -
  obtain gs b s w where st: "st = (gs, b, s, w)" by (cases st) auto
  let ?gs3 = "snd (rngu (snd (rngu (snd (rngu gs)))))"
  let ?x = "rem_trunc (uint (fst (rngu gs))) ARENA_W"
  let ?y = "rem_trunc (uint (fst (rngu (snd (rngu gs))))) ARENA_H"
  let ?n = "pick_neighbor ?x ?y (fst (rngu (snd (rngu (snd (rngu gs))))))"
  have "fst (pair_attempt st) = resolve_pair ?gs3 ?x ?y (fst ?n) (snd ?n)"
    by (simp add: st pair_attempt_def case_prod_beta Let_def)
  moreover have "in_bounds ?x ?y" by (rule attempt_cell_in_bounds)
  moreover have "grid ?gs3 = grid (fst st)" "players ?gs3 = players (fst st)"
    by (simp_all add: st)
  ultimately show ?thesis by blast
qed

lemma pair_attempt_frame:
  "cfg (fst (pair_attempt st)) = cfg (fst st)"
  "tick (fst (pair_attempt st)) = tick (fst st)"
  "phase (fst (pair_attempt st)) = phase (fst st)"
  "current_level (fst (pair_attempt st)) = current_level (fst st)"
  "use_system_rng (fst (pair_attempt st)) = use_system_rng (fst st)"
  "albert_config (fst (pair_attempt st)) = albert_config (fst st)"
  "length (players (fst (pair_attempt st))) = length (players (fst st))"
  "length (grid (fst (pair_attempt st))) = length (grid (fst st))"
  by (simp_all add: pair_attempt_def case_prod_beta Let_def)

lemma pair_attempt_walls_kept: "walls_kept (grid (fst st)) (grid (fst (pair_attempt st)))"
proof -
  obtain gs b s w where st: "st = (gs, b, s, w)" by (cases st) auto
  from pair_attempt_fst [of gs b s w] obtain gs3 x y nx ny
    where "fst (pair_attempt st) = resolve_pair gs3 x y nx ny" and "grid gs3 = grid gs"
    unfolding st by auto
  with resolve_pair_walls_kept [of gs3 x y nx ny] show ?thesis by (simp add: st)
qed

lemma pairs_loop_frame:
  "cfg (fst (pairs_loop n st)) = cfg (fst st)"
  "tick (fst (pairs_loop n st)) = tick (fst st)"
  "phase (fst (pairs_loop n st)) = phase (fst st)"
  "current_level (fst (pairs_loop n st)) = current_level (fst st)"
  "use_system_rng (fst (pairs_loop n st)) = use_system_rng (fst st)"
  "albert_config (fst (pairs_loop n st)) = albert_config (fst st)"
  "length (players (fst (pairs_loop n st))) = length (players (fst st))"
  "length (grid (fst (pairs_loop n st))) = length (grid (fst st))"
  by (induction n arbitrary: st; simp add: pair_attempt_frame)+

lemma pairs_loop_walls_kept: "walls_kept (grid (fst st)) (grid (fst (pairs_loop n st)))"
proof (induction n arbitrary: st)
  case 0
  show ?case by simp
next
  case (Suc n)
  from pair_attempt_walls_kept [of st] Suc [of "pair_attempt st"] show ?case
    by (auto intro: walls_kept_trans)
qed

lemma resolve_pairs_frame:
  "cfg (resolve_pairs gs n) = cfg gs"
  "tick (resolve_pairs gs n) = tick gs"
  "phase (resolve_pairs gs n) = phase gs"
  "current_level (resolve_pairs gs n) = current_level gs"
  "use_system_rng (resolve_pairs gs n) = use_system_rng gs"
  "albert_config (resolve_pairs gs n) = albert_config gs"
  "length (players (resolve_pairs gs n)) = length (players gs)"
  "length (grid (resolve_pairs gs n)) = length (grid gs)"
  "last_attempts (resolve_pairs gs n) = n"
  using pairs_loop_frame [of "nat n" "(gs, 0, 0, 0)"]
  by (simp_all add: resolve_pairs_def case_prod_beta)

lemma resolve_pairs_walls_kept: "walls_kept (grid gs) (grid (resolve_pairs gs n))"
  using pairs_loop_walls_kept [of "(gs, 0, 0, 0)" "nat n"]
  by (simp add: resolve_pairs_def case_prod_beta)

lemma resolve_pairs_none:
  "n \<le> 0 \<Longrightarrow> resolve_pairs gs n =
     gs\<lparr>last_battles := 0, last_attempts := n, last_same_player := 0, last_wall_empty := 0\<rparr>"
  by (simp add: resolve_pairs_def)


section \<open>The repainting sweep\<close>

lemma set_all_coords: "set all_coords = {(x, y). in_bounds x y}"
  by (auto simp: all_coords_def in_bounds_def ARENA_W_def ARENA_H_def image_iff)

lemma set_interior_coords:
  "set interior_coords = {(x, y). 1 \<le> x \<and> x \<le> ARENA_W - 2 \<and> 1 \<le> y \<and> y \<le> ARENA_H - 2}"
  by (auto simp: interior_coords_def image_iff)

lemma cell_index_covered:
  assumes "k < 960"
  shows "\<exists>x y. in_bounds x y \<and> nat (idx x y) = k"
proof (intro exI conjI)
  show "in_bounds (int k mod 40) (int k div 40)"
    using assms by (auto simp: in_bounds_def ARENA_W_def ARENA_H_def)
  show "nat (idx (int k mod 40) (int k div 40)) = k"
    by (simp add: idx_def ARENA_W_def)
qed

lemma paint_idem [simp]: "paint v pc (paint v pc c) = paint v pc c"
  by (simp add: paint_def)

lemma paint_kind_owner [simp]:
  "kind (paint v pc c) = kind c" "owner (paint v pc c) = owner c"
  by (simp_all add: paint_def)

lemma repaint_cell_eq:
  "repaint_cell v pc g (x, y) = g[nat (idx x y) := paint v pc (g ! nat (idx x y))]"
  by (simp add: repaint_cell_def paint_def Let_def at_def set_at_def)

lemma foldl_repaint_cell:
  "length (foldl (repaint_cell v pc) g cs) = length g
   \<and> (\<forall>k < length g. foldl (repaint_cell v pc) g cs ! k
          = (if k \<in> (\<lambda>(x, y). nat (idx x y)) ` set cs then paint v pc (g ! k) else g ! k))"
proof (induction cs arbitrary: g)
  case Nil
  show ?case by simp
next
  case (Cons c cs)
  obtain x y where c: "c = (x, y)" by (cases c)
  let ?n = "nat (idx x y)"
  let ?g1 = "g[?n := paint v pc (g ! ?n)]"
  let ?N = "\<lambda>cs. (\<lambda>(x, y). nat (idx x y)) ` set cs"
  have len: "length (foldl (repaint_cell v pc) g (c # cs)) = length g"
    using Cons [of ?g1] by (simp add: c repaint_cell_eq)
  have "foldl (repaint_cell v pc) g (c # cs) ! k
          = (if k \<in> ?N (c # cs) then paint v pc (g ! k) else g ! k)"
    if k: "k < length g" for k
  proof -
    have g1: "?g1 ! k = (if k = ?n then paint v pc (g ! k) else g ! k)"
      using k by (simp add: nth_list_update)
    from Cons [of ?g1] k
    have "foldl (repaint_cell v pc) ?g1 cs ! k
            = (if k \<in> ?N cs then paint v pc (?g1 ! k) else ?g1 ! k)"
      by simp
    then show ?thesis
      unfolding g1 by (cases "k = ?n") (simp_all add: c repaint_cell_eq)
  qed
  with len show ?case by blast
qed

lemma repaint_eq_map:
  assumes "grid_ok g"
  shows "repaint g v pc = map (paint v pc) g"
proof (rule nth_equalityI)
  show "length (repaint g v pc) = length (map (paint v pc) g)"
    using foldl_repaint_cell [of v pc g all_coords] by (simp add: repaint_def)
  fix k
  assume "k < length (repaint g v pc)"
  then have k: "k < length g"
    using foldl_repaint_cell [of v pc g all_coords] by (simp add: repaint_def)
  with assms have "k < 960" by (simp add: grid_ok_def ARENA_W_def ARENA_H_def)
  then obtain x y where "in_bounds x y" "nat (idx x y) = k"
    using cell_index_covered by blast
  then have "k \<in> (\<lambda>(x, y). nat (idx x y)) ` set all_coords"
    by (force simp: set_all_coords)
  with k foldl_repaint_cell [of v pc g all_coords] show "repaint g v pc ! k = map (paint v pc) g ! k"
    by (simp add: repaint_def)
qed

lemma repaint_walls_kept: "grid_ok g \<Longrightarrow> walls_kept g (repaint g v pc)"
  by (simp add: repaint_eq_map walls_kept_def paint_def)

lemma repaint_grid_ok: "grid_ok g \<Longrightarrow> grid_ok (repaint g v pc)"
  by (simp add: repaint_eq_map grid_ok_def)



section \<open>The AI update\<close>

lemma next_piece_neq: "next_piece p \<noteq> p"
  by (cases p) (simp_all add: next_piece_def int_of_piece_def piece_of_int_def rem_trunc_def)

lemma next_piece_cycle:
  "next_piece Rock = Paper" "next_piece Paper = Scissors" "next_piece Scissors = Rock"
  by (simp_all add: next_piece_def int_of_piece_def piece_of_int_def rem_trunc_def)

lemma update_albert_ai_frame:
  "cfg (update_albert_ai gs i) = cfg gs"
  "tick (update_albert_ai gs i) = tick gs"
  "phase (update_albert_ai gs i) = phase gs"
  "current_level (update_albert_ai gs i) = current_level gs"
  "use_system_rng (update_albert_ai gs i) = use_system_rng gs"
  "albert_config (update_albert_ai gs i) = albert_config gs"
  "last_battles (update_albert_ai gs i) = last_battles gs"
  "last_attempts (update_albert_ai gs i) = last_attempts gs"
  "last_same_player (update_albert_ai gs i) = last_same_player gs"
  "last_wall_empty (update_albert_ai gs i) = last_wall_empty gs"
  "length (players (update_albert_ai gs i)) = length (players gs)"
  by (simp_all add: update_albert_ai_def Let_def case_prod_beta)

lemma update_albert_ai_grid_cases:
  "grid (update_albert_ai gs i) = grid gs
   \<or> grid (update_albert_ai gs i)
       = repaint (grid gs) (id_v (players gs ! i)) (next_piece (current (players gs ! i)))"
  by (simp add: update_albert_ai_def Let_def case_prod_beta)

lemma update_albert_ai_others:
  "j \<noteq> i \<Longrightarrow> players (update_albert_ai gs i) ! j = players gs ! j"
  by (simp add: update_albert_ai_def Let_def case_prod_beta)

lemma update_albert_ai_player:
  assumes "i < length (players gs)"
  shows "id_v (players (update_albert_ai gs i) ! i) = id_v (players gs ! i)"
    and "tick_losses (players (update_albert_ai gs i) ! i) = tick_losses (players gs ! i)"
    and "accel_ctr (players (update_albert_ai gs i) ! i) = accel_ctr (players gs ! i)"
  using assms by (simp_all add: update_albert_ai_def Let_def case_prod_beta)


lemma update_albert_ai_rotation:
  assumes "i < length (players gs)"
  shows "(grid (update_albert_ai gs i) = grid gs
          \<and> current (players (update_albert_ai gs i) ! i) = current (players gs ! i))
       \<or> (grid (update_albert_ai gs i)
            = repaint (grid gs) (id_v (players gs ! i)) (next_piece (current (players gs ! i)))
          \<and> current (players (update_albert_ai gs i) ! i) = next_piece (current (players gs ! i)))"
  using assms by (simp add: update_albert_ai_def Let_def case_prod_beta)

lemma update_albert_ai_unrotated:
  assumes "i < length (players gs)"
    and "current (players (update_albert_ai gs i) ! i) = current (players gs ! i)"
  shows "grid (update_albert_ai gs i) = grid gs"
  using update_albert_ai_rotation [OF assms(1)] assms(2) next_piece_neq [of "current (players gs ! i)"]
  by auto

lemma update_albert_ai_walls_kept:
  "grid_ok (grid gs) \<Longrightarrow> walls_kept (grid gs) (grid (update_albert_ai gs i))"
  using update_albert_ai_grid_cases [of gs i] by (auto simp: repaint_walls_kept)

lemma run_ai_updates_eq:
  "run_ai_updates gs = (if 1 < length (players gs) then update_albert_ai gs 1 else gs)"
proof -
  have idle: "foldl (\<lambda>gs i. if i = Suc 0 then update_albert_ai gs i else gs) g [2..<n] = g" for g n
    by (induction n) auto
  show ?thesis
  proof (cases "1 < length (players gs)")
    case True
    then have "[1..<length (players gs)] = 1 # [2..<length (players gs)]"
      using upt_conv_Cons [of 1 "length (players gs)"] by (simp add: numeral_2_eq_2)
    then show ?thesis
      using True by (simp add: run_ai_updates_def idle)
  next
    case False
    then show ?thesis by (simp add: run_ai_updates_def)
  qed
qed


section \<open>The tick\<close>

lemma step_fixed_playing:
  "phase gs = Playing \<Longrightarrow> step_fixed gs = run_ai_updates (win_loss_check (after_combat gs))"
  by (simp add: step_fixed_def after_combat_def win_loss_check_def Let_def)

lemma step_fixed_idle: "phase gs \<noteq> Playing \<Longrightarrow> step_fixed gs = gs"
  by (cases "phase gs") (simp_all add: step_fixed_def)

lemma win_loss_check_frame:
  "grid (win_loss_check gs) = grid gs"
  "players (win_loss_check gs) = players gs"
  "cfg (win_loss_check gs) = cfg gs"
  "tick (win_loss_check gs) = tick gs"
  "rng16 (win_loss_check gs) = rng16 gs"
  "sys_gen (win_loss_check gs) = sys_gen gs"
  "current_level (win_loss_check gs) = current_level gs"
  "use_system_rng (win_loss_check gs) = use_system_rng gs"
  "albert_config (win_loss_check gs) = albert_config gs"
  "last_battles (win_loss_check gs) = last_battles gs"
  "last_attempts (win_loss_check gs) = last_attempts gs"
  "last_same_player (win_loss_check gs) = last_same_player gs"
  "last_wall_empty (win_loss_check gs) = last_wall_empty gs"
  by (simp_all add: win_loss_check_def Let_def)

lemma run_ai_updates_frame:
  "cfg (run_ai_updates gs) = cfg gs"
  "tick (run_ai_updates gs) = tick gs"
  "phase (run_ai_updates gs) = phase gs"
  "current_level (run_ai_updates gs) = current_level gs"
  "use_system_rng (run_ai_updates gs) = use_system_rng gs"
  "albert_config (run_ai_updates gs) = albert_config gs"
  "last_battles (run_ai_updates gs) = last_battles gs"
  "last_attempts (run_ai_updates gs) = last_attempts gs"
  "last_same_player (run_ai_updates gs) = last_same_player gs"
  "last_wall_empty (run_ai_updates gs) = last_wall_empty gs"
  "length (players (run_ai_updates gs)) = length (players gs)"
  by (simp_all add: run_ai_updates_eq update_albert_ai_frame)

lemma nth_list_update_any: "xs[i := v] ! p = (if i = p \<and> p < length xs then v else xs ! p)"
  by (cases "i < length xs") (auto simp: nth_list_update list_update_beyond)

lemma count_cell_length [simp]: "length (count_cell g pc c) = length pc"
  by (cases c) (simp add: count_cell_def Let_def)

lemma foldl_count_cell_length [simp]: "length (foldl (count_cell g) pc cs) = length pc"
  by (induction cs arbitrary: pc) simp_all

lemma scan_mono: "p < length pc \<Longrightarrow> pc ! p \<le> foldl (count_cell g) pc cs ! p"
proof (induction cs arbitrary: pc)
  case Nil
  show ?case by simp
next
  case (Cons c cs)
  obtain x y where c: "c = (x, y)" by (cases c)
  have "pc ! p \<le> count_cell g pc c ! p"
    using Cons.prems by (simp add: c count_cell_def Let_def nth_list_update_any)
  also have "\<dots> \<le> foldl (count_cell g) (count_cell g pc c) cs ! p"
    using Cons.prems by (intro Cons.IH) simp
  finally show ?case by simp
qed

lemma scan_zero:
  assumes "p < length pc"
    and "\<forall>(x, y) \<in> set cs. \<not> (kind (at g x y) = Symbol \<and> unat (owner (at g x y)) = p)"
  shows "foldl (count_cell g) pc cs ! p = pc ! p"
  using assms
proof (induction cs arbitrary: pc)
  case Nil
  show ?case by simp
next
  case (Cons c cs)
  obtain x y where c: "c = (x, y)" by (cases c)
  have "count_cell g pc c ! p = pc ! p"
    using Cons.prems by (auto simp: c count_cell_def Let_def nth_list_update_any)
  moreover have "foldl (count_cell g) (count_cell g pc c) cs ! p = count_cell g pc c ! p"
    using Cons.prems by (intro Cons.IH) auto
  ultimately show ?case by simp
qed

lemma scan_pos:
  assumes "length pc = 4" and "(x, y) \<in> set cs"
    and "kind (at g x y) = Symbol" and "owner (at g x y) < 4"
  shows "pc ! unat (owner (at g x y)) < foldl (count_cell g) pc cs ! unat (owner (at g x y))"
  using assms(1,2)
proof (induction cs arbitrary: pc)
  case Nil
  then show ?case by simp
next
  case (Cons c cs)
  let ?p = "unat (owner (at g x y))"
  from assms(4) have p: "?p < 4" by (simp add: word_less_nat_alt)
  show ?case
  proof (cases "c = (x, y)")
    case True
    have "pc ! ?p < count_cell g pc c ! ?p"
      using Cons.prems(1) p assms(3,4) by (simp add: True count_cell_def Let_def)
    also have "\<dots> \<le> foldl (count_cell g) (count_cell g pc c) cs ! ?p"
      using Cons.prems(1) p by (intro scan_mono) simp
    finally show ?thesis by simp
  next
    case False
    with Cons.prems have "(x, y) \<in> set cs" by simp
    then have "count_cell g pc c ! ?p < foldl (count_cell g) (count_cell g pc c) cs ! ?p"
      using Cons.prems(1) by (intro Cons.IH) simp_all
    moreover have "pc ! ?p \<le> count_cell g pc c ! ?p"
      using scan_mono [of ?p pc g "[c]"] Cons.prems(1) p by simp
    ultimately show ?thesis by simp
  qed
qed

lemma scan_counts_zero:
  assumes "p < 4"
    and "\<forall>c \<in> set g. \<not> (kind c = Symbol \<and> unat (owner c) = p)"
    and "grid_ok g"
  shows "scan_counts g ! p = 0"
proof -
  have "\<forall>(x, y) \<in> set all_coords. \<not> (kind (at g x y) = Symbol \<and> unat (owner (at g x y)) = p)"
    using assms(2,3) by (auto simp: set_all_coords at_def idx_in_grid)
  with scan_zero [of p "[0, 0, 0, 0]" all_coords g] assms(1) show ?thesis
    by (auto simp: scan_counts_def nth_Cons split: nat.splits)
qed

lemma scan_counts_pos:
  assumes "in_bounds x y" and "kind (at g x y) = Symbol" and "owner (at g x y) < 4"
  shows "0 < scan_counts g ! unat (owner (at g x y))"
proof -
  let ?p = "unat (owner (at g x y))"
  from assms(3) have "?p < 4" by (simp add: word_less_nat_alt)
  then have "[0, 0, 0, 0 :: int] ! ?p = 0"
    by (auto simp: nth_Cons split: nat.splits)
  with scan_pos [of "[0, 0, 0, 0]" x y all_coords g] assms show ?thesis
    by (simp add: scan_counts_def set_all_coords)
qed


lemma after_combat_none:
  "pairs_per_tick (cfg gs) \<le> 0 \<Longrightarrow>
     after_combat gs =
       gs\<lparr>tick := tick gs + 1,
          players := map (\<lambda>player. player\<lparr>tick_losses := 0\<rparr>) (players gs),
          last_battles := 0, last_attempts := pairs_per_tick (cfg gs),
          last_same_player := 0, last_wall_empty := 0\<rparr>"
  by (simp add: after_combat_def resolve_pairs_none)

lemma after_combat_frame:
  "cfg (after_combat gs) = cfg gs"
  "tick (after_combat gs) = tick gs + 1"
  "phase (after_combat gs) = phase gs"
  "current_level (after_combat gs) = current_level gs"
  "use_system_rng (after_combat gs) = use_system_rng gs"
  "albert_config (after_combat gs) = albert_config gs"
  "length (players (after_combat gs)) = length (players gs)"
  "length (grid (after_combat gs)) = length (grid gs)"
  by (simp_all add: after_combat_def resolve_pairs_frame)

text \<open>
  Claim C6. When the scan of a tick counts no Symbol cell for player 0 and none for player 1,
  neither transition fires and the phase stays Playing. The tick ends in Lost exactly when
  player 0 has none and player 1 has some, in Won exactly when player 1 has none and player 0
  has some, and these two conditions never hold together.
\<close>

theorem win_loss_exclusive:
  assumes "phase gs = Playing" and "pc = scan_counts (grid (after_combat gs))"
  shows "(pc ! 0 = 0 \<and> pc ! 1 = 0 \<longrightarrow> phase (step_fixed gs) = Playing)
         \<and> (phase (step_fixed gs) = Lost \<longleftrightarrow> pc ! 0 = 0 \<and> pc ! 1 > 0)
         \<and> (phase (step_fixed gs) = Won \<longleftrightarrow> pc ! 1 = 0 \<and> pc ! 0 > 0)
         \<and> \<not> ((pc ! 0 = 0 \<and> pc ! 1 > 0) \<and> (pc ! 1 = 0 \<and> pc ! 0 > 0))"
proof -
  have "phase (step_fixed gs) = phase (win_loss_check (after_combat gs))"
    using assms(1) by (simp add: step_fixed_playing run_ai_updates_frame)
  moreover have "phase (after_combat gs) = Playing"
    using assms(1) by (simp add: after_combat_frame)
  ultimately show ?thesis
    using assms(2) by (auto simp: win_loss_check_def Let_def)
qed

lemma barren_state_simps:
  "phase barren_state = Playing"
  "pairs_per_tick (cfg barren_state) = 0"
  "grid barren_state = replicate 960 Cell0"
  "players barren_state = [new_player 0 Rock, new_player 1 Scissors]"
  by (simp_all add: barren_state_def default_state_def ARENA_W_def ARENA_H_def)

theorem win_loss_exclusive_witness:
  "phase barren_state = Playing
   \<and> scan_counts (grid (after_combat barren_state)) ! 0 = 0
   \<and> scan_counts (grid (after_combat barren_state)) ! 1 = 0
   \<and> phase (step_fixed barren_state) = Playing"
proof -
  have g: "grid (after_combat barren_state) = replicate 960 Cell0"
    by (simp add: after_combat_none barren_state_simps)
  have ok: "grid_ok (replicate 960 Cell0)"
    by (simp add: grid_ok_def ARENA_W_def ARENA_H_def)
  have z: "scan_counts (grid (after_combat barren_state)) ! 0 = 0"
    "scan_counts (grid (after_combat barren_state)) ! 1 = 0"
    unfolding g using ok by (simp_all add: scan_counts_zero Cell0_def)
  from win_loss_exclusive [OF barren_state_simps(1) refl] z show ?thesis
    by (simp add: barren_state_simps)
qed


section \<open>The order of a tick\<close>

text \<open>
  Claim C1, as the code has it. A tick in the Playing phase increments the tick counter,
  resets every player's \<open>tick_losses\<close>, runs the combat resolver, scans the grid and applies the
  Lost/Won transition, in this order; then the AI update runs for player 1, when there is
  one, whether or not a transition fired. The phase the tick ends in is the one the
  evaluation chose.
\<close>

theorem tick_order_ai_unconditional:
  assumes "phase gs = Playing"
  shows "step_fixed gs =
           (let gs1 = gs\<lparr>tick := tick gs + 1\<rparr>;
                gs2 = gs1\<lparr>players := map (\<lambda>player. player\<lparr>tick_losses := 0\<rparr>) (players gs1)\<rparr>;
                gs3 = resolve_pairs gs2 (pairs_per_tick (cfg gs));
                gs4 = win_loss_check gs3
            in if 1 < length (players gs) then update_albert_ai gs4 1 else gs4)
         \<and> phase (step_fixed gs) = phase (win_loss_check (after_combat gs))
         \<and> (1 < length (players gs) \<longrightarrow>
              step_fixed gs = update_albert_ai (win_loss_check (after_combat gs)) 1)"
proof -
  have l: "length (players (win_loss_check (after_combat gs))) = length (players gs)"
    by (simp add: win_loss_check_frame after_combat_frame)
  have "step_fixed gs = run_ai_updates (win_loss_check (after_combat gs))"
    using assms by (rule step_fixed_playing)
  then show ?thesis
    by (simp add: run_ai_updates_eq l update_albert_ai_frame)
       (simp add: after_combat_def Let_def)
qed

lemma lone_cell_state_simps:
  "phase lone_cell_state = Playing"
  "pairs_per_tick (cfg lone_cell_state) = 0"
  "grid lone_cell_state = (replicate 960 Cell0)[41 := \<lparr>kind = Symbol, owner = 1, piece = Scissors\<rparr>]"
  "players lone_cell_state = [new_player 0 Rock, new_player 1 Scissors]"
  "tick lone_cell_state = 0"
  "rng16 lone_cell_state = 0xACE1"
  "use_system_rng lone_cell_state = False"
  "albert_config lone_cell_state = \<lparr>rotation_average = 58, rotation_half_interval = 43\<rparr>"
  by (simp_all add: lone_cell_state_def default_state_def)

lemma lone_cell_state_lost: "phase (win_loss_check (after_combat lone_cell_state)) = Lost"
proof -
  let ?g = "(replicate 960 Cell0)[41 := \<lparr>kind = Symbol, owner = 1, piece = Scissors\<rparr>]"
  have g: "grid (after_combat lone_cell_state) = ?g"
    by (simp add: after_combat_none lone_cell_state_simps)
  have ok: "grid_ok ?g"
    by (simp add: grid_ok_def ARENA_W_def ARENA_H_def)
  have "\<forall>c \<in> set ?g. \<not> (kind c = Symbol \<and> unat (owner c) = 0)"
    by (auto dest!: subsetD [OF set_update_subset_insert] simp: Cell0_def)
  with ok have z: "scan_counts ?g ! 0 = 0"
    by (simp add: scan_counts_zero)
  have a: "at ?g 1 1 = \<lparr>kind = Symbol, owner = 1, piece = Scissors\<rparr>"
    by (simp add: at_def idx_def ARENA_W_def)
  have "in_bounds 1 1" by (simp add: in_bounds_def ARENA_W_def ARENA_H_def)
  from scan_counts_pos [OF this, of ?g] have p: "0 < scan_counts ?g ! 1"
    by (simp add: a)
  show ?thesis
    unfolding win_loss_check_def Let_def g using z p by simp
qed

lemma lfsr16_seed_value: "lfsr16_step 0xACE1 = 22128"
  by (simp add: lfsr16_step_def)

lemma lone_cell_state_ai:
  "players (update_albert_ai (win_loss_check (after_combat lone_cell_state)) 1) ! 1
     = (new_player 1 Scissors)\<lparr>rot_period := 45\<rparr>"
  by (simp add: update_albert_ai_def win_loss_check_frame after_combat_none lone_cell_state_simps
      rngu_def lfsr16_seed_value rem_trunc_def new_player_def Let_def)

theorem tick_order_ai_unconditional_witness:
  "phase lone_cell_state = Playing
   \<and> phase (step_fixed lone_cell_state) = Lost
   \<and> step_fixed lone_cell_state
       = update_albert_ai (win_loss_check (after_combat lone_cell_state)) 1"
proof -
  note t = tick_order_ai_unconditional [OF lone_cell_state_simps(1)]
  have "1 < length (players lone_cell_state)"
    by (simp add: lone_cell_state_simps)
  with t [THEN conjunct2, THEN conjunct2]
  have "step_fixed lone_cell_state
          = update_albert_ai (win_loss_check (after_combat lone_cell_state)) 1"
    by blast
  moreover from t [THEN conjunct2, THEN conjunct1]
  have "phase (step_fixed lone_cell_state) = Lost"
    by (simp only: lone_cell_state_lost)
  ultimately show ?thesis
    using lone_cell_state_simps(1) by blast
qed

text \<open>
  The AI update is not reserved to ticks without a transition: here the evaluation turns
  the phase to Lost, and the update still draws player 1's first rotation interval.
\<close>

theorem ai_runs_after_lost_counterexample:
  "phase lone_cell_state = Playing
   \<and> phase (win_loss_check (after_combat lone_cell_state)) = Lost
   \<and> rot_period (players (win_loss_check (after_combat lone_cell_state)) ! 1) = 0
   \<and> rot_period (players (step_fixed lone_cell_state) ! 1) = 45
   \<and> step_fixed lone_cell_state \<noteq> win_loss_check (after_combat lone_cell_state)"
proof -
  have s: "step_fixed lone_cell_state
             = update_albert_ai (win_loss_check (after_combat lone_cell_state)) 1"
    by (simp add: step_fixed_playing run_ai_updates_eq lone_cell_state_simps
        win_loss_check_frame after_combat_frame)
  have b: "rot_period (players (win_loss_check (after_combat lone_cell_state)) ! 1) = 0"
    by (simp add: win_loss_check_frame after_combat_none lone_cell_state_simps new_player_def)
  have a: "rot_period (players (step_fixed lone_cell_state) ! 1) = 45"
    unfolding s lone_cell_state_ai by simp
  from a b have "step_fixed lone_cell_state \<noteq> win_loss_check (after_combat lone_cell_state)"
    by auto
  with a b show ?thesis
    by (simp add: lone_cell_state_simps lone_cell_state_lost)
qed


section \<open>A tick without pair attempts\<close>

text \<open>
  Claim C3, as the code has it. With \<open>pairs_per_tick = 0\<close>, the combat resolver of a tick in
  the Playing phase changes no cell; after the tick the counter is incremented, every
  player's \<open>tick_losses\<close> is 0, the statistics are 0, and the configuration is untouched. Every
  player but player 1 is otherwise unchanged. The grid is the one before the tick unless
  the AI update rotated player 1's piece in this tick: then it is the old grid with
  player 1's Symbol cells repainted with the new piece, and nothing else changed in it.
\<close>

theorem idle_tick_frame:
  assumes "phase gs = Playing" and "pairs_per_tick (cfg gs) = 0" and "grid_ok (grid gs)"
    and "gs' = step_fixed gs"
  shows "grid (after_combat gs) = grid gs
         \<and> tick gs' = tick gs + 1
         \<and> length (players gs') = length (players gs)
         \<and> (\<forall>i < length (players gs). tick_losses (players gs' ! i) = 0)
         \<and> (\<forall>i < length (players gs). i \<noteq> 1 \<longrightarrow> players gs' ! i = (players gs ! i)\<lparr>tick_losses := 0\<rparr>)
         \<and> (1 < length (players gs) \<longrightarrow>
               id_v (players gs' ! 1) = id_v (players gs ! 1)
               \<and> accel_ctr (players gs' ! 1) = accel_ctr (players gs ! 1))
         \<and> cfg gs' = cfg gs \<and> albert_config gs' = albert_config gs
         \<and> current_level gs' = current_level gs \<and> use_system_rng gs' = use_system_rng gs
         \<and> last_battles gs' = 0 \<and> last_attempts gs' = 0
         \<and> last_same_player gs' = 0 \<and> last_wall_empty gs' = 0
         \<and> (grid gs' = grid gs \<and> (1 < length (players gs) \<longrightarrow>
                current (players gs' ! 1) = current (players gs ! 1))
             \<or> 1 < length (players gs)
               \<and> current (players gs' ! 1) = next_piece (current (players gs ! 1))
               \<and> grid gs' = map (paint (id_v (players gs ! 1))
                                      (next_piece (current (players gs ! 1)))) (grid gs))"
proof -
  let ?reset = "\<lambda>player. player\<lparr>tick_losses := 0\<rparr>"
  let ?g4 = "win_loss_check (after_combat gs)"
  have ac: "after_combat gs =
       gs\<lparr>tick := tick gs + 1, players := map ?reset (players gs),
          last_battles := 0, last_attempts := 0, last_same_player := 0, last_wall_empty := 0\<rparr>"
    using after_combat_none [of gs] assms(2) by simp
  have g4: "grid ?g4 = grid gs" "players ?g4 = map ?reset (players gs)"
    "tick ?g4 = tick gs + 1" "cfg ?g4 = cfg gs" "albert_config ?g4 = albert_config gs"
    "current_level ?g4 = current_level gs" "use_system_rng ?g4 = use_system_rng gs"
    "last_battles ?g4 = 0" "last_attempts ?g4 = 0" "last_same_player ?g4 = 0"
    "last_wall_empty ?g4 = 0"
    by (simp_all add: win_loss_check_frame ac)
  have ga: "grid (after_combat gs) = grid gs"
    by (simp add: ac)
  have st: "gs' = run_ai_updates ?g4"
    using assms(1,4) by (simp add: step_fixed_playing)
  show ?thesis
  proof (cases "1 < length (players gs)")
    case False
    then have "gs' = ?g4" by (simp add: st run_ai_updates_eq g4)
    with False g4 ga show ?thesis by simp
  next
    case True
    then have s: "gs' = update_albert_ai ?g4 1" and l: "1 < length (players ?g4)"
      by (simp_all add: st run_ai_updates_eq g4)
    have p1: "id_v (players ?g4 ! 1) = id_v (players gs ! 1)"
      "current (players ?g4 ! 1) = current (players gs ! 1)"
      "tick_losses (players ?g4 ! 1) = 0"
      "accel_ctr (players ?g4 ! 1) = accel_ctr (players gs ! 1)"
      using True by (simp_all add: g4)
    have others: "players gs' ! i = ?reset (players gs ! i)" if "i < length (players gs)" "i \<noteq> 1" for i
      using that update_albert_ai_others [of i 1 ?g4] by (simp add: s g4)
    have one: "id_v (players gs' ! 1) = id_v (players gs ! 1)"
      "tick_losses (players gs' ! 1) = 0"
      "accel_ctr (players gs' ! 1) = accel_ctr (players gs ! 1)"
      using update_albert_ai_player [OF l] unfolding s p1 by blast+
    have losses: "tick_losses (players gs' ! i) = 0" if "i < length (players gs)" for i
      using that others [of i] one(2) by (cases "i = 1") simp_all
    have rot: "grid gs' = grid gs \<and> current (players gs' ! 1) = current (players gs ! 1)
        \<or> current (players gs' ! 1) = next_piece (current (players gs ! 1))
          \<and> grid gs' = map (paint (id_v (players gs ! 1))
                                 (next_piece (current (players gs ! 1)))) (grid gs)"
      using update_albert_ai_rotation [OF l]
      unfolding s p1 g4(1) repaint_eq_map [OF assms(3)] by blast
    have frame: "tick gs' = tick gs + 1" "length (players gs') = length (players gs)"
      "cfg gs' = cfg gs" "albert_config gs' = albert_config gs"
      "current_level gs' = current_level gs" "use_system_rng gs' = use_system_rng gs"
      "last_battles gs' = 0" "last_attempts gs' = 0"
      "last_same_player gs' = 0" "last_wall_empty gs' = 0"
      by (simp_all add: s update_albert_ai_frame g4)
    from True others one losses rot frame ga show ?thesis
      by blast
  qed
qed


lemma lone_cell_grid_ok:
  "grid_ok ((replicate 960 Cell0)[41 := \<lparr>kind = Symbol, owner = 1, piece = Scissors\<rparr>])"
  by (simp add: grid_ok_def ARENA_W_def ARENA_H_def)

theorem idle_tick_frame_witness:
  "phase lone_cell_state = Playing \<and> pairs_per_tick (cfg lone_cell_state) = 0
   \<and> grid_ok (grid lone_cell_state)
   \<and> tick (step_fixed lone_cell_state) = 1
   \<and> length (players (step_fixed lone_cell_state)) = 2
   \<and> players (step_fixed lone_cell_state) ! 0 = new_player 0 Rock
   \<and> cfg (step_fixed lone_cell_state) = cfg lone_cell_state"
proof -
  have ok: "grid_ok (grid lone_cell_state)"
    by (simp add: lone_cell_state_simps lone_cell_grid_ok)
  note t = idle_tick_frame [OF lone_cell_state_simps(1,2) ok refl]
  have "tick (step_fixed lone_cell_state) = 1"
    using t by (simp add: lone_cell_state_simps)
  moreover have "length (players (step_fixed lone_cell_state)) = 2"
    using t by (simp add: lone_cell_state_simps)
  moreover have "players (step_fixed lone_cell_state) ! 0 = (players lone_cell_state ! 0)\<lparr>tick_losses := 0\<rparr>"
    using t by (simp add: lone_cell_state_simps)
  moreover have "cfg (step_fixed lone_cell_state) = cfg lone_cell_state"
    using t by simp
  ultimately show ?thesis
    using ok by (simp add: lone_cell_state_simps new_player_def)
qed

lemma rotation_due_state_simps:
  "phase rotation_due_state = Playing"
  "pairs_per_tick (cfg rotation_due_state) = 0"
  "grid rotation_due_state = (replicate 960 Cell0)[41 := \<lparr>kind = Symbol, owner = 1, piece = Scissors\<rparr>]"
  "players rotation_due_state = [new_player 0 Rock, (new_player 1 Scissors)\<lparr>rot_period := 1\<rparr>]"
  "tick rotation_due_state = 0"
  by (simp_all add: rotation_due_state_def lone_cell_state_simps)

lemma rotation_due_state_grid:
  "grid (step_fixed rotation_due_state) = repaint (grid rotation_due_state) 1 Rock"
proof -
  have "step_fixed rotation_due_state
          = update_albert_ai (win_loss_check (after_combat rotation_due_state)) 1"
    by (simp add: step_fixed_playing run_ai_updates_eq rotation_due_state_simps
        win_loss_check_frame after_combat_frame)
  then show ?thesis
    by (simp add: update_albert_ai_def win_loss_check_frame after_combat_none
        rotation_due_state_simps new_player_def next_piece_cycle Let_def case_prod_beta)
qed

text \<open>
  With no pair attempts the grid can still change: player 1's interval has run out, the AI
  update rotates Scissors to Rock and repaints the cell at \<open>(1, 1)\<close>.
\<close>

theorem idle_tick_repaints_counterexample:
  "phase rotation_due_state = Playing \<and> pairs_per_tick (cfg rotation_due_state) = 0
   \<and> at (grid rotation_due_state) 1 1 = \<lparr>kind = Symbol, owner = 1, piece = Scissors\<rparr>
   \<and> at (grid (step_fixed rotation_due_state)) 1 1 = \<lparr>kind = Symbol, owner = 1, piece = Rock\<rparr>
   \<and> grid (step_fixed rotation_due_state) \<noteq> grid rotation_due_state"
proof -
  have b: "at (grid rotation_due_state) 1 1 = \<lparr>kind = Symbol, owner = 1, piece = Scissors\<rparr>"
    by (simp add: rotation_due_state_simps at_def idx_def ARENA_W_def)
  have a: "at (grid (step_fixed rotation_due_state)) 1 1 = \<lparr>kind = Symbol, owner = 1, piece = Rock\<rparr>"
    by (simp add: rotation_due_state_grid rotation_due_state_simps
        repaint_eq_map [OF lone_cell_grid_ok] at_def idx_def ARENA_W_def paint_def)
  from a b have "grid (step_fixed rotation_due_state) \<noteq> grid rotation_due_state"
    by auto
  with a b show ?thesis
    by (simp add: rotation_due_state_simps)
qed


section \<open>Walls\<close>

lemma length_set_kind [simp]: "length (set_kind g x y k) = length g"
  by (simp add: set_kind_def)

lemma set_kind_wall_mono:
  "kind (g ! k) = Wall \<Longrightarrow> kind (set_kind g x y Wall ! k) = Wall"
  by (simp add: set_kind_def set_at_def at_def nth_list_update_any)

lemma set_kind_wall_here:
  "nat (idx x y) < length g \<Longrightarrow> kind (set_kind g x y Wall ! nat (idx x y)) = Wall"
  by (simp add: set_kind_def set_at_def at_def)

lemma foldl_walls:
  assumes len: "\<And>g x. length (f g x) = length g"
    and mono: "\<And>g x k. kind (g ! k) = Wall \<Longrightarrow> kind (f g x ! k) = Wall"
  shows "length (foldl f g xs) = length g"
    and "kind (g ! k) = Wall \<Longrightarrow> kind (foldl f g xs ! k) = Wall"
  by (induction xs arbitrary: g) (simp_all add: len mono)

lemma foldl_walls_set:
  assumes len: "\<And>g x. length (f g x) = length g"
    and mono: "\<And>g x k. kind (g ! k) = Wall \<Longrightarrow> kind (f g x ! k) = Wall"
    and here: "\<And>g. n x < length g \<Longrightarrow> kind (f g x ! n x) = Wall"
    and "x \<in> set xs" and "n x < length g"
  shows "kind (foldl f g xs ! n x) = Wall"
  using assms(4,5)
proof (induction xs arbitrary: g)
  case Nil
  then show ?case by simp
next
  case (Cons a xs)
  show ?case
  proof (cases "a = x")
    case True
    with Cons.prems here [of g] have "kind (f g a ! n x) = Wall" by simp
    then show ?thesis
      using foldl_walls(2) [of f "f g a" "n x" xs] len mono by simp
  next
    case False
    with Cons.prems have "x \<in> set xs" by simp
    then show ?thesis
      using Cons.IH [of "f g a"] Cons.prems(2) len by simp
  qed
qed


lemma border_rows_walls:
  assumes "length g = 960"
  shows "length (border_rows g) = 960"
    and "kind (g ! k) = Wall \<Longrightarrow> kind (border_rows g ! k) = Wall"
    and "in_bounds x y \<Longrightarrow> y = 0 \<or> y = ARENA_H - 1 \<Longrightarrow> kind (border_rows g ! nat (idx x y)) = Wall"
proof -
  let ?f = "\<lambda>g x. set_kind (set_kind g x 0 Wall) x (ARENA_H - 1) Wall"
  have len: "\<And>g x. length (?f g x) = length g" by simp
  have mono: "\<And>g x k. kind (g ! k) = Wall \<Longrightarrow> kind (?f g x ! k) = Wall"
    by (simp add: set_kind_wall_mono)
  show "length (border_rows g) = 960"
    using foldl_walls(1) [of ?f g, OF len mono] assms by (simp add: border_rows_def)
  show "kind (g ! k) = Wall \<Longrightarrow> kind (border_rows g ! k) = Wall"
    using foldl_walls(2) [of ?f g k, OF len mono] by (simp add: border_rows_def)
  assume b: "in_bounds x y" and y: "y = 0 \<or> y = ARENA_H - 1"
  from b have x: "x \<in> set [0..ARENA_W - 1]" by (simp add: in_bounds_def)
  from b assms have i: "nat (idx x y) < length g" by (simp add: idx_bound)
  have "kind (foldl ?f g [0..ARENA_W - 1] ! nat (idx x y)) = Wall"
  proof (rule foldl_walls_set [where f = ?f and n = "\<lambda>x. nat (idx x y)", OF len mono _ x i])
    fix g' :: Grid
    assume "nat (idx x y) < length g'"
    with y show "kind (?f g' x ! nat (idx x y)) = Wall"
      by (auto simp: set_kind_wall_here set_kind_wall_mono)
  qed
  then show "kind (border_rows g ! nat (idx x y)) = Wall"
    by (simp add: border_rows_def)
qed

lemma border_cols_walls:
  assumes "length g = 960"
  shows "length (border_cols g) = 960"
    and "kind (g ! k) = Wall \<Longrightarrow> kind (border_cols g ! k) = Wall"
    and "in_bounds x y \<Longrightarrow> x = 0 \<or> x = ARENA_W - 1 \<Longrightarrow> kind (border_cols g ! nat (idx x y)) = Wall"
proof -
  let ?f = "\<lambda>g y. set_kind (set_kind g 0 y Wall) (ARENA_W - 1) y Wall"
  have len: "\<And>g x. length (?f g x) = length g" by simp
  have mono: "\<And>g x k. kind (g ! k) = Wall \<Longrightarrow> kind (?f g x ! k) = Wall"
    by (simp add: set_kind_wall_mono)
  show "length (border_cols g) = 960"
    using foldl_walls(1) [of ?f g, OF len mono] assms by (simp add: border_cols_def)
  show "kind (g ! k) = Wall \<Longrightarrow> kind (border_cols g ! k) = Wall"
    using foldl_walls(2) [of ?f g k, OF len mono] by (simp add: border_cols_def)
  assume b: "in_bounds x y" and xb: "x = 0 \<or> x = ARENA_W - 1"
  from b have y: "y \<in> set [0..ARENA_H - 1]" by (simp add: in_bounds_def)
  from b assms have i: "nat (idx x y) < length g" by (simp add: idx_bound)
  have "kind (foldl ?f g [0..ARENA_H - 1] ! nat (idx x y)) = Wall"
  proof (rule foldl_walls_set [where f = ?f and n = "\<lambda>y. nat (idx x y)", OF len mono _ y i])
    fix g' :: Grid
    assume "nat (idx x y) < length g'"
    with xb show "kind (?f g' y ! nat (idx x y)) = Wall"
      by (auto simp: set_kind_wall_here set_kind_wall_mono)
  qed
  then show "kind (border_cols g ! nat (idx x y)) = Wall"
    by (simp add: border_cols_def)
qed

lemma fill_cell_elsewhere:
  "k \<noteq> nat (idx x y) \<Longrightarrow> fill_cell ps g (x, y) ! k = g ! k"
  by (simp add: fill_cell_def set_at_def nth_list_update_any)

lemma foldl_fill_cell:
  "length (foldl (fill_cell ps) g cs) = length g
   \<and> (\<forall>k. k \<notin> (\<lambda>(x, y). nat (idx x y)) ` set cs \<longrightarrow> foldl (fill_cell ps) g cs ! k = g ! k)"
proof (induction cs arbitrary: g)
  case Nil
  show ?case by simp
next
  case (Cons c cs)
  obtain x y where c: "c = (x, y)" by (cases c)
  have "length (fill_cell ps g c) = length g"
    by (simp add: c fill_cell_def)
  moreover have "fill_cell ps g c ! k = g ! k" if "k \<noteq> nat (idx x y)" for k
    using that by (simp add: c fill_cell_elsewhere)
  ultimately show ?case
    using Cons [of "fill_cell ps g c"] by (auto simp: c)
qed

lemma load_level1_grid_ok: "grid_ok (grid (load_level1 gs))"
  using foldl_fill_cell [of "players gs" "border_cols (border_rows (clear (grid gs)))" interior_coords]
  by (simp add: load_level1_def grid_ok_def border_cols_walls(1) border_rows_walls(1) clear_def
      ARENA_W_def ARENA_H_def)

lemma load_level1_border:
  assumes "in_bounds x y" and "is_border x y"
  shows "kind (at (grid (load_level1 gs)) x y) = Wall"
proof -
  let ?g0 = "clear (grid gs)"
  let ?g2 = "border_cols (border_rows ?g0)"
  have l0: "length ?g0 = 960" by (simp add: clear_def ARENA_W_def ARENA_H_def)
  note l1 = border_rows_walls(1) [OF l0]
  have "kind (?g2 ! nat (idx x y)) = Wall"
  proof (cases "y = 0 \<or> y = ARENA_H - 1")
    case True
    with assms(1) have "kind (border_rows ?g0 ! nat (idx x y)) = Wall"
      by (rule border_rows_walls(3) [OF l0])
    then show ?thesis by (rule border_cols_walls(2) [OF l1])
  next
    case False
    with assms(2) have "x = 0 \<or> x = ARENA_W - 1" by (auto simp: is_border_def)
    with assms(1) show ?thesis by (rule border_cols_walls(3) [OF l1])
  qed
  moreover have "nat (idx x y) \<notin> (\<lambda>(x, y). nat (idx x y)) ` set interior_coords"
  proof
    assume "nat (idx x y) \<in> (\<lambda>(x, y). nat (idx x y)) ` set interior_coords"
    then obtain x' y' where i: "(x', y') \<in> set interior_coords" and e: "nat (idx x y) = nat (idx x' y')"
      by auto
    from i have b': "in_bounds x' y'" and n: "\<not> is_border x' y'"
      by (auto simp: set_interior_coords in_bounds_def is_border_def ARENA_W_def ARENA_H_def)
    from idx_inj [OF assms(1) b' e] assms(2) n show False by simp
  qed
  ultimately show ?thesis
    using foldl_fill_cell [of "players gs" ?g2 interior_coords]
    by (simp add: load_level1_def at_def)
qed


lemma walls_kept_grid_ok: "walls_kept g g' \<Longrightarrow> grid_ok g \<Longrightarrow> grid_ok g'"
  by (simp add: walls_kept_def grid_ok_def)

lemma border_walls_iff:
  "border_walls g \<longleftrightarrow> (\<forall>x y. in_bounds x y \<and> is_border x y \<longrightarrow> kind (at g x y) = Wall)"
  by (auto simp: border_walls_def set_all_coords)

lemma walls_kept_border:
  assumes "walls_kept g g'" and "grid_ok g" and "border_walls g"
  shows "border_walls g'"
  unfolding border_walls_iff
proof (intro allI impI)
  fix x y
  assume b: "in_bounds x y \<and> is_border x y"
  with assms(3) have "kind (at g x y) = Wall" by (simp add: border_walls_iff)
  moreover from b assms(2) have "nat (idx x y) < length g" by (simp add: idx_in_grid)
  ultimately show "kind (at g' x y) = Wall"
    using assms(1) by (simp add: walls_kept_def at_def)
qed

lemma step_fixed_walls_kept:
  assumes "grid_ok (grid gs)"
  shows "walls_kept (grid gs) (grid (step_fixed gs))"
proof (cases "phase gs = Playing")
  case False
  then show ?thesis by (simp add: step_fixed_idle)
next
  case True
  let ?g3 = "win_loss_check (after_combat gs)"
  have w3: "walls_kept (grid gs) (grid ?g3)"
    using resolve_pairs_walls_kept
      [of "gs\<lparr>tick := tick gs + 1,
              players := map (\<lambda>player. player\<lparr>tick_losses := 0\<rparr>) (players gs)\<rparr>"
          "pairs_per_tick (cfg gs)"]
    by (simp add: win_loss_check_frame after_combat_def)
  from w3 assms have "grid_ok (grid ?g3)" by (rule walls_kept_grid_ok)
  then have "walls_kept (grid ?g3) (grid (run_ai_updates ?g3))"
    by (simp add: run_ai_updates_eq update_albert_ai_walls_kept)
  with w3 show ?thesis
    using True by (auto simp: step_fixed_playing intro: walls_kept_trans)
qed

lemma key_space_walls_kept:
  assumes "grid_ok (grid gs)" and "phase gs \<noteq> Won" and "phase gs \<noteq> Lost"
  shows "walls_kept (grid gs) (grid (key_space gs))"
  using assms by (simp add: key_space_def Let_def repaint_walls_kept)

lemma force_albert_rotation_walls_kept:
  "grid_ok (grid gs) \<Longrightarrow> walls_kept (grid gs) (grid (force_albert_rotation gs))"
  by (simp add: force_albert_rotation_def Let_def repaint_walls_kept)

lemma key_space_restart:
  "phase gs = Won \<or> phase gs = Lost \<Longrightarrow> \<exists>gs'. key_space gs = load_level1 gs'"
  by (auto simp: key_space_def Let_def)

lemma handle_invariant:
  assumes "grid_ok (grid gs)" and "border_walls (grid gs)"
  shows "grid_ok (grid (handle gs i)) \<and> border_walls (grid (handle gs i))"
proof -
  have kept: "grid_ok g' \<and> border_walls g'" if "walls_kept (grid gs) g'" for g'
    using that assms by (simp add: walls_kept_grid_ok walls_kept_border)
  show ?thesis
  proof (cases i)
    case Tick
    then show ?thesis using kept step_fixed_walls_kept [OF assms(1)] by simp
  next
    case Space
    show ?thesis
    proof (cases "phase gs = Won \<or> phase gs = Lost")
      case True
      then obtain gs' where "key_space gs = load_level1 gs'"
        using key_space_restart by blast
      then show ?thesis
        by (simp add: Space load_level1_grid_ok border_walls_iff load_level1_border)
    next
      case False
      then show ?thesis
        using kept key_space_walls_kept [OF assms(1)] by (simp add: Space)
    qed
  next
    case ForceRotation
    then show ?thesis using kept force_albert_rotation_walls_kept [OF assms(1)] by simp
  next
    case (Tune c a b)
    then show ?thesis using assms by simp
  next
    case ResetTimer
    then show ?thesis using assms by simp
  next
    case ResetConfig
    then show ?thesis using assms by simp
  qed
qed

lemma run_invariant:
  assumes "grid_ok (grid gs)" and "border_walls (grid gs)"
  shows "grid_ok (grid (foldl handle gs inputs)) \<and> border_walls (grid (foldl handle gs inputs))"
  using assms
proof (induction inputs arbitrary: gs)
  case Nil
  then show ?case by simp
next
  case (Cons i inputs)
  from handle_invariant [OF Cons.prems, of i] show ?case
    by (simp add: Cons.IH)
qed

text \<open>
  Claim C4. After a level load every cell of the outer border is a wall. Combat resolution,
  the AI update, a whole tick and the human rotation leave every wall cell as it is (kind,
  owner and piece). Hence, after a level load and any sequence of ticks, key presses and
  uses of the tuning panel, every border cell is a wall.
\<close>

theorem border_stays_wall:
  "(in_bounds x y \<and> is_border x y \<longrightarrow> kind (at (grid (load_level1 gs0)) x y) = Wall)
   \<and> (grid_ok (grid gs) \<longrightarrow>
        walls_kept (grid gs) (grid (resolve_pairs gs n))
        \<and> walls_kept (grid gs) (grid (update_albert_ai gs i))
        \<and> walls_kept (grid gs) (grid (step_fixed gs))
        \<and> (phase gs = Playing \<longrightarrow> walls_kept (grid gs) (grid (key_space gs))))
   \<and> (in_bounds x y \<and> is_border x y \<longrightarrow>
        kind (at (grid (foldl handle (load_level1 gs0) inputs)) x y) = Wall)"
proof (intro conjI impI)
  assume b: "in_bounds x y \<and> is_border x y"
  then show "kind (at (grid (load_level1 gs0)) x y) = Wall"
    by (simp add: load_level1_border)
  have "border_walls (grid (load_level1 gs0))"
    by (simp add: border_walls_iff load_level1_border)
  with run_invariant [OF load_level1_grid_ok, of gs0 inputs] b
  show "kind (at (grid (foldl handle (load_level1 gs0) inputs)) x y) = Wall"
    by (simp add: border_walls_iff)
next
  assume ok: "grid_ok (grid gs)"
  show "walls_kept (grid gs) (grid (resolve_pairs gs n))"
    by (rule resolve_pairs_walls_kept)
  show "walls_kept (grid gs) (grid (update_albert_ai gs i))"
    using ok by (rule update_albert_ai_walls_kept)
  show "walls_kept (grid gs) (grid (step_fixed gs))"
    using ok by (rule step_fixed_walls_kept)
  assume "phase gs = Playing"
  with ok show "walls_kept (grid gs) (grid (key_space gs))"
    by (simp add: key_space_walls_kept)
qed

theorem border_stays_wall_witness:
  "in_bounds 0 5 \<and> is_border 0 5
   \<and> kind (at (grid (initial_state (\<lambda>_. 0))) 0 5) = Wall
   \<and> grid_ok (grid duel_state) \<and> phase duel_state = Playing
   \<and> walls_kept (grid duel_state) (grid (resolve_pairs duel_state 240))
   \<and> walls_kept (grid duel_state) (grid (update_albert_ai duel_state 1))
   \<and> walls_kept (grid duel_state) (grid (step_fixed duel_state))
   \<and> walls_kept (grid duel_state) (grid (key_space duel_state))
   \<and> kind (at (grid (foldl handle (initial_state (\<lambda>_. 0))
                       [Space, Tick, Space, Tick, ForceRotation, ResetTimer, Tick])) 0 5) = Wall"
proof -
  have b: "in_bounds 0 5" "is_border 0 5"
    by (simp_all add: in_bounds_def is_border_def ARENA_W_def ARENA_H_def)
  have p: "phase duel_state = Playing"
    by (simp add: duel_state_def)
  from border_stays_wall [of 0 5
      "(default_state (\<lambda>_. 0))\<lparr>players := [new_player 0 Rock, new_player 1 Scissors]\<rparr>"
      duel_state 240 1 "[Space, Tick, Space, Tick, ForceRotation, ResetTimer, Tick]"]
  show ?thesis
    unfolding initial_state_def using b p duel_state_simps(1) by blast
qed


section \<open>The loss counter\<close>

lemma count_loss_players:
  "players (count_loss gs v) = (if unat v < length (players gs) then add_loss (players gs) v else players gs)"
  by (simp add: count_loss_def add_loss_def)

lemma resolve_pair_players:
  "players (resolve_pair gs x y nx ny)
     = (case duel_loser gs x y nx ny of
          None \<Rightarrow> players gs
        | Some v \<Rightarrow> if unat v < length (players gs) then add_loss (players gs) v else players gs)"
  by (simp add: resolve_pair_def duel_loser_def beats_def Let_def case_prod_beta count_loss_players)

lemma pair_attempt_players:
  "players (fst (pair_attempt st))
     = (case attempt_loser st of
          None \<Rightarrow> players (fst st)
        | Some v \<Rightarrow> if unat v < length (players (fst st)) then add_loss (players (fst st)) v
                    else players (fst st))"
  by (simp add: pair_attempt_def attempt_loser_def case_prod_beta Let_def resolve_pair_players
      split: option.split)


lemma add_loss_nth:
  "i < length ps \<Longrightarrow>
     tick_losses (add_loss ps v ! i)
       = (if unat v = i then tick_losses (ps ! i) + 1 else tick_losses (ps ! i))"
  by (simp add: add_loss_def nth_list_update_any)

lemma pair_attempt_tick_losses:
  assumes "unat v < length (players (fst st))"
  shows "tick_losses (players (fst (pair_attempt st)) ! unat v)
           = tick_losses (players (fst st) ! unat v)
             + (if attempt_loser st = Some v then 1 else 0)"
  using assms
  by (auto simp: pair_attempt_players add_loss_nth word_unat_eq_iff split: option.split)

lemma pairs_loop_tick_losses:
  assumes "unat v < length (players (fst st))"
  shows "unat (tick_losses (players (fst (pairs_loop n st)) ! unat v))
           = (unat (tick_losses (players (fst st) ! unat v)) + losses_in n st v) mod 256"
  using assms
proof (induction n arbitrary: st)
  case 0
  have "unat (tick_losses (players (fst st) ! unat v)) < 256"
    using unsigned_less [of "tick_losses (players (fst st) ! unat v)"] by simp
  then show ?case by simp
next
  case (Suc n)
  let ?b = "attempt_loser st = Some v"
  let ?k = "if ?b then 1 else 0 :: nat"
  have l: "unat v < length (players (fst (pair_attempt st)))"
    using Suc.prems by (simp add: pair_attempt_frame)
  have "unat (tick_losses (players (fst (pairs_loop (Suc n) st)) ! unat v))
          = (unat (tick_losses (players (fst (pair_attempt st)) ! unat v))
             + losses_in n (pair_attempt st) v) mod 256"
    using Suc.IH [OF l] by simp
  also have "unat (tick_losses (players (fst (pair_attempt st)) ! unat v))
          = (unat (tick_losses (players (fst st) ! unat v)) + ?k) mod 256"
    unfolding pair_attempt_tick_losses [OF Suc.prems] by (simp add: unat_word_ariths)
  finally show ?case
    by (simp add: mod_simps add.assoc)
qed


lemma step_fixed_tick_losses:
  assumes "phase gs = Playing" and "unat v < length (players gs)"
  shows "unat (tick_losses (players (step_fixed gs) ! unat v)) = tick_duel_losses gs v mod 256"
proof -
  let ?reset = "\<lambda>player. player\<lparr>tick_losses := 0\<rparr>"
  let ?gs2 = "gs\<lparr>tick := tick gs + 1, players := map ?reset (players gs)\<rparr>"
  let ?st = "pairs_loop (nat (pairs_per_tick (cfg gs))) (?gs2, 0, 0, 0)"
  let ?g4 = "win_loss_check (after_combat gs)"
  have p4: "players ?g4 = players (fst ?st)"
    by (simp add: win_loss_check_frame after_combat_def resolve_pairs_def case_prod_beta)
  have l4: "length (players ?g4) = length (players gs)"
    by (simp add: win_loss_check_frame after_combat_frame)
  have "tick_losses (players (run_ai_updates ?g4) ! unat v) = tick_losses (players ?g4 ! unat v)"
  proof (cases "unat v = 1")
    case True
    with assms(2) l4 update_albert_ai_player(2) [of 1 ?g4] show ?thesis
      by (simp add: run_ai_updates_eq)
  next
    case False
    then show ?thesis
      by (simp add: run_ai_updates_eq update_albert_ai_others)
  qed
  then have "unat (tick_losses (players (step_fixed gs) ! unat v))
               = unat (tick_losses (players (fst ?st) ! unat v))"
    using assms(1) by (simp add: step_fixed_playing p4)
  also have "\<dots> = (unat (tick_losses (players ?gs2 ! unat v))
                     + losses_in (nat (pairs_per_tick (cfg gs))) (?gs2, 0, 0, 0) v) mod 256"
    using pairs_loop_tick_losses [of v "(?gs2, 0, 0, 0)"] assms(2) by simp
  finally show ?thesis
    using assms(2) by (simp add: tick_duel_losses_def)
qed

section \<open>The level as loaded\<close>

lemma set_kind_blank:
  "owner (g ! k) = 0 \<and> piece (g ! k) = Rock \<Longrightarrow>
   owner (set_kind g x y c ! k) = 0 \<and> piece (set_kind g x y c ! k) = Rock"
  by (simp add: set_kind_def set_at_def at_def nth_list_update_any)

lemma foldl_blank:
  assumes "\<And>g x k. owner (g ! k) = 0 \<and> piece (g ! k) = Rock \<Longrightarrow>
             owner (f g x ! k) = 0 \<and> piece (f g x ! k) = Rock"
    and "owner (g ! k) = 0 \<and> piece (g ! k) = Rock"
  shows "owner (foldl f g xs ! k) = 0 \<and> piece (foldl f g xs ! k) = Rock"
  using assms(2) by (induction xs arbitrary: g) (simp_all add: assms(1))

lemma borders_blank:
  assumes "k < 960"
  shows "owner (border_cols (border_rows (clear g)) ! k) = 0
         \<and> piece (border_cols (border_rows (clear g)) ! k) = Rock"
proof -
  have "owner (clear g ! k) = 0 \<and> piece (clear g ! k) = Rock"
    using assms by (simp add: clear_def Cell0_def ARENA_W_def ARENA_H_def)
  then have "owner (border_rows (clear g) ! k) = 0 \<and> piece (border_rows (clear g) ! k) = Rock"
    unfolding border_rows_def by (intro foldl_blank set_kind_blank)
  then show ?thesis
    unfolding border_cols_def by (intro foldl_blank set_kind_blank)
qed

lemma fill_cell_here:
  "nat (idx x y) < length g \<Longrightarrow>
   fill_cell ps g (x, y) ! nat (idx x y)
     = (if x < ARENA_W div 2 then \<lparr>kind = Symbol, owner = 0, piece = current (ps ! 0)\<rparr>
        else \<lparr>kind = Symbol, owner = 1, piece = current (ps ! 1)\<rparr>)"
  by (simp add: fill_cell_def set_at_def)

lemma foldl_fill_cell_kept:
  assumes "\<forall>(x', y') \<in> set cs. in_bounds x' y'" and "in_bounds x y"
    and "g ! nat (idx x y) = fill_cell ps g0 (x, y) ! nat (idx x y)"
    and "nat (idx x y) < length g" and "nat (idx x y) < length g0"
  shows "foldl (fill_cell ps) g cs ! nat (idx x y) = fill_cell ps g0 (x, y) ! nat (idx x y)"
  using assms(1,3,4)
proof (induction cs arbitrary: g)
  case Nil
  then show ?case by simp
next
  case (Cons c cs)
  obtain x' y' where c: "c = (x', y')" by (cases c)
  have l: "nat (idx x y) < length (fill_cell ps g c)"
    using Cons.prems(3) by (simp add: c fill_cell_def)
  have "fill_cell ps g c ! nat (idx x y) = fill_cell ps g0 (x, y) ! nat (idx x y)"
  proof (cases "nat (idx x' y') = nat (idx x y)")
    case True
    moreover from Cons.prems(1) have "in_bounds x' y'" by (simp add: c)
    ultimately have "x' = x \<and> y' = y" using assms(2) idx_inj by blast
    then show ?thesis
      using Cons.prems(3) assms(5) by (simp add: c fill_cell_here)
  next
    case False
    then show ?thesis
      using Cons.prems(2) by (simp add: c fill_cell_elsewhere)
  qed
  with Cons.IH [of "fill_cell ps g c"] Cons.prems(1) l show ?case by simp
qed

lemma foldl_fill_cell_filled:
  assumes "\<forall>(x', y') \<in> set cs. in_bounds x' y'" and "(x, y) \<in> set cs"
    and "nat (idx x y) < length g"
  shows "foldl (fill_cell ps) g cs ! nat (idx x y)
           = (if x < ARENA_W div 2 then \<lparr>kind = Symbol, owner = 0, piece = current (ps ! 0)\<rparr>
              else \<lparr>kind = Symbol, owner = 1, piece = current (ps ! 1)\<rparr>)"
  using assms
proof (induction cs arbitrary: g)
  case Nil
  then show ?case by simp
next
  case (Cons c cs)
  have b: "in_bounds x y" using Cons.prems(1,2) by auto
  have l: "nat (idx x y) < length (fill_cell ps g c)"
    using Cons.prems(3) by (cases c) (simp add: fill_cell_def)
  show ?case
  proof (cases "c = (x, y)")
    case True
    have "foldl (fill_cell ps) (fill_cell ps g c) cs ! nat (idx x y)
            = fill_cell ps g (x, y) ! nat (idx x y)"
      using Cons.prems(1) b l Cons.prems(3)
      by (intro foldl_fill_cell_kept) (simp_all add: True)
    then show ?thesis
      using Cons.prems(3) by (simp add: fill_cell_here)
  next
    case False
    with Cons.prems have "(x, y) \<in> set cs" by simp
    with Cons.IH [of "fill_cell ps g c"] Cons.prems(1) l show ?thesis by simp
  qed
qed

lemma load_level1_at:
  assumes "in_bounds x y"
  shows "at (grid (load_level1 gs)) x y = level_cell (players gs) x y"
proof -
  let ?g2 = "border_cols (border_rows (clear (grid gs)))"
  have l2: "length ?g2 = 960"
    by (simp add: border_cols_walls(1) border_rows_walls(1) clear_def ARENA_W_def ARENA_H_def)
  from assms have i: "nat (idx x y) < 960" by (rule idx_bound)
  have inb: "\<forall>(x', y') \<in> set interior_coords. in_bounds x' y'"
    by (auto simp: set_interior_coords in_bounds_def ARENA_W_def ARENA_H_def)
  show ?thesis
  proof (cases "is_border x y")
    case True
    with assms have "kind (at (grid (load_level1 gs)) x y) = Wall"
      by (rule load_level1_border)
    moreover have "nat (idx x y) \<notin> (\<lambda>(x, y). nat (idx x y)) ` set interior_coords"
    proof
      assume "nat (idx x y) \<in> (\<lambda>(x, y). nat (idx x y)) ` set interior_coords"
      then obtain x' y' where m: "(x', y') \<in> set interior_coords" and e: "nat (idx x y) = nat (idx x' y')"
        by auto
      from m have b': "in_bounds x' y'" and n: "\<not> is_border x' y'"
        by (auto simp: set_interior_coords in_bounds_def is_border_def ARENA_W_def ARENA_H_def)
      from idx_inj [OF assms b' e] True n show False by simp
    qed
    then have "at (grid (load_level1 gs)) x y = ?g2 ! nat (idx x y)"
      using foldl_fill_cell [of "players gs" ?g2 interior_coords]
      by (simp add: load_level1_def at_def)
    moreover note borders_blank [OF i, of "grid gs"]
    ultimately have "kind (at (grid (load_level1 gs)) x y) = Wall"
      "owner (at (grid (load_level1 gs)) x y) = 0" "piece (at (grid (load_level1 gs)) x y) = Rock"
      by simp_all
    then have "at (grid (load_level1 gs)) x y = \<lparr>kind = Wall, owner = 0, piece = Rock\<rparr>"
      by (cases "at (grid (load_level1 gs)) x y") simp
    with True show ?thesis by (simp add: level_cell_def)
  next
    case False
    with assms have "(x, y) \<in> set interior_coords"
      by (auto simp: set_interior_coords in_bounds_def is_border_def ARENA_W_def ARENA_H_def)
    from foldl_fill_cell_filled [OF inb this, of ?g2 "players gs"] i l2 False
    show ?thesis
      by (simp add: load_level1_def at_def level_cell_def)
  qed
qed


section \<open>A tick with 256 losses\<close>

lemma word16_and_ffff: "(w :: 16 word) AND 0xFFFF = w"
proof -
  have "(0xFFFF :: 16 word) = - 1" by simp
  then show ?thesis by (simp only: word_bw_comms(1) word_log_esimps)
qed

lemma uint_of_nat16: "m < 65536 \<Longrightarrow> uint (of_nat m :: 16 word) = int m"
  by (simp add: uint_nat unat_of_nat)

lemma sweep_gen_values:
  "sweep_gen (3 * k) = of_nat (19 + k mod 19)"
  "sweep_gen (3 * k + 1) = of_nat (1 + k div 19)"
  "sweep_gen (3 * k + 2) = 1"
proof -
  have "(3 * k + 1) mod 3 = 1" "(3 * k + 1) div 3 = k"
    "(3 * k + 2) mod 3 = 2" "(3 * k + 2) div 3 = k"
    by presburger+
  then show "sweep_gen (3 * k) = of_nat (19 + k mod 19)"
    "sweep_gen (3 * k + 1) = of_nat (1 + k div 19)"
    "sweep_gen (3 * k + 2) = 1"
    unfolding sweep_gen_def by simp_all
qed

lemma rngu_system:
  "use_system_rng gs \<Longrightarrow> rngu gs = (sys_gen gs 0, gs\<lparr>sys_gen := (\<lambda>n. sys_gen gs (Suc n))\<rparr>)"
  by (simp add: rngu_def word16_and_ffff)

lemma at_set_at:
  assumes "grid_ok g" and "in_bounds x y" and "in_bounds x' y'"
  shows "at (set_at g x y c) x' y' = (if x' = x \<and> y' = y then c else at g x' y')"
proof (cases "x' = x \<and> y' = y")
  case True
  with assms show ?thesis by (simp add: at_def set_at_def idx_in_grid)
next
  case False
  with idx_inj [OF assms(2,3)] have "nat (idx x y) \<noteq> nat (idx x' y')" by blast
  with False show ?thesis by (auto simp: at_def set_at_def)
qed


lemma sweep_index_unique:
  fixes u v :: int
  assumes "v * 19 + u = int k" and "0 \<le> u" and "u < 19"
  shows "u = int (k mod 19) \<and> v = int (k div 19)"
proof -
  have "(v * 19 + u) mod 19 = u" using assms(2,3) by simp
  moreover have "(v * 19 + u) div 19 = v" using assms(2,3) by simp
  ultimately show ?thesis
    unfolding assms(1) by (simp add: zmod_int zdiv_int)
qed

lemma sweep_index_of: "int (k div 19) * 19 + int (k mod 19) = int k"
  by (metis div_mult_mod_eq of_nat_add of_nat_mult of_nat_numeral)

lemma sweep_cell_Suc:
  assumes "in_bounds x y" and "k < 418"
  shows "sweep_cell (Suc k) x y
           = (if x = 20 + int (k mod 19) \<and> y = 1 + int (k div 19)
              then \<lparr>kind = Symbol, owner = 0, piece = Rock\<rparr> else sweep_cell k x y)"
proof (cases "is_border x y \<or> x < 20")
  case True
  have "k div 19 < 22" using assms(2) by simp
  moreover have "k mod 19 < 19" by simp
  ultimately have "\<not> (x = 20 + int (k mod 19) \<and> y = 1 + int (k div 19))"
    using True by (auto simp: is_border_def ARENA_W_def ARENA_H_def)
  with True show ?thesis by (auto simp: sweep_cell_def)
next
  case False
  with assms(1) have b: "0 \<le> x - 20" "x - 20 < 19" "\<not> is_border x y" "\<not> x < 20"
    by (auto simp: is_border_def in_bounds_def ARENA_W_def ARENA_H_def)
  show ?thesis
  proof (cases "(y - 1) * 19 + (x - 20) = int k")
    case True
    from sweep_index_unique [OF True b(1,2)] have "x = 20 + int (k mod 19) \<and> y = 1 + int (k div 19)"
      by simp
    with True b show ?thesis by (simp add: sweep_cell_def)
  next
    case False
    have "\<not> (x = 20 + int (k mod 19) \<and> y = 1 + int (k div 19))"
    proof
      assume "x = 20 + int (k mod 19) \<and> y = 1 + int (k div 19)"
      then have "(y - 1) * 19 + (x - 20) = int k"
        using sweep_index_of [of k] by simp
      with False show False by simp
    qed
    with False b show ?thesis by (simp add: sweep_cell_def)
  qed
qed


lemma sweep_step:
  assumes "sweep_inv k gs" and "k < 418"
  shows "attempt_loser (gs, b, s, w) = Some 1"
    and "sweep_inv (Suc k) (fst (pair_attempt (gs, b, s, w)))"
proof -
  let ?A = "\<lparr>kind = Symbol, owner = 0, piece = Rock\<rparr>"
  let ?B = "\<lparr>kind = Symbol, owner = 1, piece = Scissors\<rparr>"
  define x y where "x = 19 + int (k mod 19)" and "y = 1 + int (k div 19)"
  define gs1 gs2 gs3 where "gs1 = gs\<lparr>sys_gen := (\<lambda>n. sweep_gen (3 * k + Suc n))\<rparr>"
    and "gs2 = gs\<lparr>sys_gen := (\<lambda>n. sweep_gen (3 * k + Suc (Suc n)))\<rparr>"
    and "gs3 = gs\<lparr>sys_gen := (\<lambda>n. sweep_gen (3 * k + Suc (Suc (Suc n))))\<rparr>"
  from assms(1) have ok: "grid_ok (grid gs)" and u: "use_system_rng gs"
    and g: "sys_gen gs = (\<lambda>n. sweep_gen (3 * k + n))"
    and cells: "\<And>x y. in_bounds x y \<Longrightarrow> at (grid gs) x y = sweep_cell k x y"
    by (simp_all add: sweep_inv_def)
  have kd: "k div 19 < 22" and km: "k mod 19 < 19"
    using assms(2) by simp_all
  have r1: "rngu gs = (of_nat (19 + k mod 19), gs1)"
    using rngu_system [OF u] sweep_gen_values(1) [of k] by (simp add: g gs1_def)
  have r2: "rngu gs1 = (of_nat (1 + k div 19), gs2)"
    using rngu_system [of gs1] u sweep_gen_values(2) [of k] by (simp add: gs1_def gs2_def)
  have r3: "rngu gs2 = (1, gs3)"
    using rngu_system [of gs2] u sweep_gen_values(3) [of k]
    by (simp add: gs2_def gs3_def numeral_2_eq_2)
  have "uint (of_nat (19 + k mod 19) :: 16 word) = int (19 + k mod 19)"
    using km by (intro uint_of_nat16) simp
  then have xv: "rem_trunc (uint (of_nat (19 + k mod 19) :: 16 word)) ARENA_W = x"
    using km by (simp only: x_def) (simp add: rem_trunc_mod ARENA_W_def)
  have "uint (of_nat (1 + k div 19) :: 16 word) = int (1 + k div 19)"
    using kd by (intro uint_of_nat16) simp
  then have yv: "rem_trunc (uint (of_nat (1 + k div 19) :: 16 word)) ARENA_H = y"
    using kd by (simp only: y_def) (simp add: rem_trunc_mod ARENA_H_def)
  have nb: "pick_neighbor x y 1 = (x + 1, y)"
    by (simp add: pick_neighbor_def)
  have bx: "in_bounds x y" and bn: "in_bounds (x + 1) y"
    using kd km by (simp_all add: in_bounds_def ARENA_W_def ARENA_H_def x_def y_def)
  have nbx: "\<not> is_border x y" "\<not> is_border (x + 1) y"
    using kd km by (simp_all add: is_border_def ARENA_W_def ARENA_H_def x_def y_def)
  have ix: "(y - 1) * 19 + (x - 20) = int k - 1" "(y - 1) * 19 + (x + 1 - 20) = int k"
    using sweep_index_of [of k] by (simp_all add: x_def y_def)
  have a: "at (grid gs3) x y = ?A"
    using cells [OF bx] nbx(1) ix(1) by (simp add: gs3_def sweep_cell_def)
  have b: "at (grid gs3) (x + 1) y = ?B"
    using cells [OF bn] nbx(2) ix(2) km by (simp add: gs3_def sweep_cell_def x_def)
  have dl: "duel_loser gs3 x y (x + 1) y = Some 1"
    by (simp add: duel_loser_def a b bn beats_def)
  show "attempt_loser (gs, b, s, w) = Some 1"
    using xv yv by (simp add: attempt_loser_def r1 r2 r3 nb dl)
  have rp: "resolve_pair gs3 x y (x + 1) y
              = count_loss (gs3\<lparr>grid := set_at (grid gs3) (x + 1) y ?A\<rparr>) 1"
    using resolve_pair_rps [OF bn a [symmetric] b [symmetric]] by (simp add: beats_def)
  have pa: "fst (pair_attempt (gs, b, s, w)) = resolve_pair gs3 x y (x + 1) y"
    using xv yv by (simp add: pair_attempt_def r1 r2 r3 nb)
  have gr: "grid (fst (pair_attempt (gs, b, s, w))) = set_at (grid gs) (x + 1) y ?A"
    unfolding pa rp by (simp add: gs3_def)
  have "(\<lambda>n. sweep_gen (3 * k + Suc (Suc (Suc n)))) = (\<lambda>n. sweep_gen (3 * Suc k + n))"
    by (rule ext, rule arg_cong [where f = sweep_gen]) simp
  moreover have "sys_gen (fst (pair_attempt (gs, b, s, w)))
                   = (\<lambda>n. sweep_gen (3 * k + Suc (Suc (Suc n))))"
    unfolding pa rp by (simp add: gs3_def)
  ultimately have sg: "sys_gen (fst (pair_attempt (gs, b, s, w))) = (\<lambda>n. sweep_gen (3 * Suc k + n))"
    by (rule back_subst [where P = "\<lambda>f. sys_gen (fst (pair_attempt (gs, b, s, w))) = f", rotated])
  have us: "use_system_rng (fst (pair_attempt (gs, b, s, w)))"
    unfolding pa rp using u by (simp add: gs3_def)
  have x1: "x + 1 = 20 + int (k mod 19)" by (simp add: x_def)
  have "at (grid (fst (pair_attempt (gs, b, s, w)))) x' y' = sweep_cell (Suc k) x' y'"
    if "in_bounds x' y'" for x' y'
    unfolding gr [unfolded x1 y_def] at_set_at [OF ok bn [unfolded x1 y_def] that]
      cells [OF that] sweep_cell_Suc [OF that assms(2)]
    by simp
  moreover have "grid_ok (grid (fst (pair_attempt (gs, b, s, w))))"
    using ok by (simp add: gr)
  moreover note sg us
  ultimately show "sweep_inv (Suc k) (fst (pair_attempt (gs, b, s, w)))"
    by (simp add: sweep_inv_def)
qed


lemma sweep_losses:
  assumes "sweep_inv k (fst st)" and "k + n \<le> 418"
  shows "losses_in n st 1 = n"
  using assms
proof (induction n arbitrary: k st)
  case 0
  show ?case by simp
next
  case (Suc n)
  obtain gs b s w where st: "st = (gs, b, s, w)" by (cases st) auto
  from Suc.prems have inv: "sweep_inv k gs" and k: "k < 418"
    by (simp_all add: st)
  from sweep_step [OF inv k, of b s w]
  have "attempt_loser st = Some 1" and "sweep_inv (Suc k) (fst (pair_attempt st))"
    by (simp_all add: st)
  moreover from this(2) Suc.prems(2) have "losses_in n (pair_attempt st) 1 = n"
    by (intro Suc.IH [of "Suc k"]) simp_all
  ultimately show ?case by simp
qed

lemma sweep_state_simps:
  "phase sweep_state = Playing"
  "pairs_per_tick (cfg sweep_state) = 256"
  "players sweep_state = [new_player 0 Rock, new_player 1 Scissors]"
  "use_system_rng sweep_state"
  "sys_gen sweep_state = sweep_gen"
  "grid sweep_state
     = grid (load_level1 ((default_state sweep_gen)\<lparr>players := [new_player 0 Rock, new_player 1 Scissors]\<rparr>))"
  by (simp_all add: sweep_state_def initial_state_def load_level1_def default_state_def)

lemma sweep_state_inv:
  "sweep_inv 0 (sweep_state\<lparr>tick := tick sweep_state + 1,
      players := map (\<lambda>player. player\<lparr>tick_losses := 0\<rparr>) (players sweep_state)\<rparr>)"
proof -
  have "at (grid sweep_state) x y = sweep_cell 0 x y" if "in_bounds x y" for x y
    using that unfolding sweep_state_simps(6) load_level1_at [OF that]
    by (auto simp: level_cell_def sweep_cell_def new_player_def ARENA_W_def ARENA_H_def
        is_border_def in_bounds_def)
  then show ?thesis
    by (simp add: sweep_inv_def sweep_state_simps load_level1_grid_ok)
qed

lemma sweep_state_losses: "tick_duel_losses sweep_state 1 = 256"
  using sweep_losses [OF _ _, of 0 _ 256] sweep_state_inv
  by (simp add: tick_duel_losses_def sweep_state_simps(2))


section \<open>The loss counter wraps\<close>

text \<open>
  Claim C10. \<open>tick_losses\<close> is an 8-bit counter that counts modulo 256: after a tick in the
  Playing phase it holds the number of duels the player lost in the tick, modulo 256. So
  with 256 losses in a tick it reads 0, and with more than 255 it reads less than the true
  count: it wraps around and does not saturate.
\<close>

theorem tick_losses_wraps:
  assumes "phase gs = Playing" and "unat v < length (players gs)"
  shows "unat (tick_losses (players (step_fixed gs) ! unat v)) = tick_duel_losses gs v mod 256
         \<and> (tick_duel_losses gs v = 256 \<longrightarrow> tick_losses (players (step_fixed gs) ! unat v) = 0)
         \<and> (tick_duel_losses gs v > 255 \<longrightarrow>
              unat (tick_losses (players (step_fixed gs) ! unat v)) < tick_duel_losses gs v)"
proof (intro conjI impI)
  show e: "unat (tick_losses (players (step_fixed gs) ! unat v)) = tick_duel_losses gs v mod 256"
    using assms by (rule step_fixed_tick_losses)
  {
    assume "tick_duel_losses gs v = 256"
    with e have "unat (tick_losses (players (step_fixed gs) ! unat v)) = 0" by simp
    then show "tick_losses (players (step_fixed gs) ! unat v) = 0"
      by (simp add: unat_eq_0)
  }
  {
    assume "255 < tick_duel_losses gs v"
    moreover have "tick_duel_losses gs v mod 256 < 256" by simp
    ultimately show "unat (tick_losses (players (step_fixed gs) ! unat v)) < tick_duel_losses gs v"
      using e by linarith
  }
qed

text \<open>
  Such a tick exists within the tuning panel's range of \<open>pairs_per_tick\<close>: from the level as
  loaded, when the system generator returns the stream \<open>sweep_gen\<close>, each of 256 attempts
  takes a cell from player 1, and the counter then reads 0.
\<close>

theorem tick_losses_wraps_witness:
  "phase sweep_state = Playing
   \<and> unat (1 :: 8 word) < length (players sweep_state)
   \<and> pairs_per_tick (cfg sweep_state) = 256
   \<and> tick_duel_losses sweep_state 1 = 256
   \<and> tick_losses (players (step_fixed sweep_state) ! 1) = 0"
proof -
  have l: "unat (1 :: 8 word) < length (players sweep_state)"
    by (simp add: sweep_state_simps)
  from tick_losses_wraps [OF sweep_state_simps(1) l] sweep_state_losses
  have "tick_losses (players (step_fixed sweep_state) ! 1) = 0"
    by simp
  with l sweep_state_losses show ?thesis
    by (simp add: sweep_state_simps)
qed

section \<open>The rotation interval\<close>

lemma lfsr16_step_0190: "lfsr16_step 0x0190 = 200"
  by (simp add: lfsr16_step_def)

text \<open>
  Claim C2 fails on the code. With average 200 and half interval 100 the interval is drawn
  from 100 to 300; the draw 200 gives 300, which the 8-bit field \<open>rot_period\<close> stores as 44,
  below the lower bound 100.
\<close>

theorem rot_period_truncated:
  "rot_period (players wide_interval_state ! 1) = 0
   \<and> max 1 (rotation_average (albert_config wide_interval_state)
              - rotation_half_interval (albert_config wide_interval_state)) = 100
   \<and> rotation_average (albert_config wide_interval_state)
       + rotation_half_interval (albert_config wide_interval_state) = 300
   \<and> fst (rngu wide_interval_state) = 200
   \<and> rot_period (players (update_albert_ai wide_interval_state 1) ! 1) = 44"
  by (simp add: update_albert_ai_def wide_interval_state_def default_state_def new_player_def
      rngu_def lfsr16_step_0190 rem_trunc_def Let_def)

lemma drawn_interval_fits:
  fixes avg half :: int and r :: "16 word"
  assumes "0 \<le> half" and "1 \<le> avg + half" and "avg + half \<le> 255"
  defines "lo \<equiv> max 1 (avg - half)"
  defines "v \<equiv> lo + rem_trunc (uint r) (avg + half - lo + 1)"
  shows "lo \<le> uint (word_of_int v :: 8 word) \<and> uint (word_of_int v :: 8 word) \<le> avg + half"
proof -
  have lo: "1 \<le> lo" "lo \<le> avg + half"
    using assms(1,2) by (simp_all add: lo_def)
  then have range: "0 < avg + half - lo + 1" by simp
  have "rem_trunc (uint r) (avg + half - lo + 1) = uint r mod (avg + half - lo + 1)"
    using range by (simp add: rem_trunc_mod)
  moreover have "0 \<le> uint r mod (avg + half - lo + 1)"
    using range by (rule pos_mod_sign)
  moreover have "uint r mod (avg + half - lo + 1) < avg + half - lo + 1"
    using range by (rule pos_mod_bound)
  ultimately have v: "lo \<le> v" "v \<le> avg + half"
    unfolding v_def by linarith+
  with lo assms(3) have "0 \<le> v" "v < 256" by simp_all
  then have "uint (word_of_int v :: 8 word) = v"
    by (simp add: uint_word_of_int)
  with v show ?thesis by simp
qed


lemma update_albert_ai_rot_period:
  assumes "i < length (players gs)"
  shows "rot_period (players (update_albert_ai gs i) ! i) = rot_period (players gs ! i)
           \<and> rot_period (players gs ! i) \<noteq> 0
         \<or> (\<exists>r :: 16 word. rot_period (players (update_albert_ai gs i) ! i)
               = word_of_int
                   (max 1 (rotation_average (albert_config gs) - rotation_half_interval (albert_config gs))
                    + rem_trunc (uint r)
                        (rotation_average (albert_config gs) + rotation_half_interval (albert_config gs)
                         - max 1 (rotation_average (albert_config gs)
                                  - rotation_half_interval (albert_config gs)) + 1)))"
  using assms
  by (auto simp add: update_albert_ai_def Let_def case_prod_beta simp del: of_int_add)

text \<open>
  When the upper bound fits the 8-bit field (average plus half interval at most 255, at
  least 1, half interval not negative), an AI update either leaves \<open>rot_period\<close> as it was
  (non-zero, no rotation due) or stores an interval between \<open>max 1 (average - half)\<close> and
  \<open>average + half\<close>.
\<close>

theorem rot_period_in_range_when_it_fits:
  assumes "i < length (players gs)"
    and "avg = rotation_average (albert_config gs)"
    and "half = rotation_half_interval (albert_config gs)"
    and "0 \<le> half" and "1 \<le> avg + half" and "avg + half \<le> 255"
    and "p' = players (update_albert_ai gs i) ! i"
  shows "rot_period p' = rot_period (players gs ! i) \<and> rot_period (players gs ! i) \<noteq> 0
         \<or> max 1 (avg - half) \<le> uint (rot_period p') \<and> uint (rot_period p') \<le> avg + half"
  using update_albert_ai_rot_period [OF assms(1)] drawn_interval_fits [OF assms(4-6)]
  unfolding assms(2,3,7) by metis


theorem rot_period_in_range_when_it_fits_witness:
  "1 < length (players lone_cell_state)
   \<and> rotation_average (albert_config lone_cell_state) = 58
   \<and> rotation_half_interval (albert_config lone_cell_state) = 43
   \<and> rot_period (players lone_cell_state ! 1) = 0
   \<and> 15 \<le> uint (rot_period (players (update_albert_ai lone_cell_state 1) ! 1))
   \<and> uint (rot_period (players (update_albert_ai lone_cell_state 1) ! 1)) \<le> 101"
proof -
  have l: "1 < length (players lone_cell_state)"
    and a: "58 = rotation_average (albert_config lone_cell_state)"
    and h: "43 = rotation_half_interval (albert_config lone_cell_state)"
    and z: "rot_period (players lone_cell_state ! 1) = 0"
    by (simp_all add: lone_cell_state_simps new_player_def)
  from rot_period_in_range_when_it_fits [OF l a h _ _ _ refl] z
  have "15 \<le> uint (rot_period (players (update_albert_ai lone_cell_state 1) ! 1))
        \<and> uint (rot_period (players (update_albert_ai lone_cell_state 1) ! 1)) \<le> 101"
    by simp
  with l a h z show ?thesis by simp
qed


end
